theory Spec2Isabelle
  imports Main
begin

section \<open>Values shared by both elements\<close>

text \<open>
  A thrown JavaScript \<^verbatim>\<open>Error\<close> is a value carrying its message; a computation that may
  throw returns \<open>error + 'a\<close> with \<open>Inl\<close> for the throw. A promise is a cell that is pending
  or settled; cells live in a store (a list) and are referred to by their index, so that two
  references to the same promise are the same index.
\<close>

datatype error = Error string

type_synonym 'a result = "error + 'a"

datatype 'a promise = Pending | Fulfilled 'a | Rejected error

text \<open>JavaScript truthiness of a \<^verbatim>\<open>string | null\<close>: \<^verbatim>\<open>null\<close> and the empty string are falsy.\<close>

definition truthy :: "string option \<Rightarrow> bool" where
  "truthy v = (case v of None \<Rightarrow> False | Some s \<Rightarrow> s \<noteq> [])"

text \<open>The part of \<^verbatim>\<open>HTMLElement\<close> both classes extend: the attribute map.\<close>

record html_element =
  attributes :: "string \<rightharpoonup> string"

definition getAttribute :: "'a html_element_scheme \<Rightarrow> string \<Rightarrow> string option" where
  "getAttribute el name = attributes el name"

definition hasAttribute :: "'a html_element_scheme \<Rightarrow> string \<Rightarrow> bool" where
  "hasAttribute el name = (attributes el name \<noteq> None)"

section \<open>The stream element (stream\_element.ts)\<close>

text \<open>
  The first element child is either a \<^verbatim>\<open>HTMLTemplateElement\<close> (with its content) or some
  other element (with its tag name).
\<close>

datatype node = HTMLTemplateElement (content: string) | OtherElement string

text \<open>
  What the element does to the outside, in order: dispatching an event, invoking the action
  function (with the value of the action attribute at that moment), \<^verbatim>\<open>console.error\<close>,
  and calling \<^verbatim>\<open>this.remove()\<close>.
\<close>

datatype effect =
    DispatchEvent string
  | PerformAction "string option"
  | ConsoleError error
  | RemoveCalled

text \<open>
  \<open>renderPromise\<close> is the private field (\<open>None\<close> is \<^verbatim>\<open>undefined\<close>), a reference into
  \<open>promises\<close>. \<open>awaiting\<close> holds, for every invocation of \<^verbatim>\<open>connectedCallback\<close> suspended at
  its \<^verbatim>\<open>await\<close>, the promise it awaits.
\<close>

record stream_element = html_element +
  outerHTML :: string
  firstElementChild :: "node option"
  isConnected :: bool
  renderPromise :: "nat option"
  promises :: "unit promise list"
  awaiting :: "nat list"
  effects :: "effect list"

text \<open>
  The collaborators that are not part of the two classes are parameters:
  \<^item> \<open>StreamActions\<close>: the result of the property lookup \<^verbatim>\<open>StreamActions[name]\<close>
    (\<open>None\<close> when the lookup is falsy). An action function is called with the element as
    \<^verbatim>\<open>this\<close> and returns or throws; what it does to the rest of the document is its own
    business and is not modelled.
  \<^item> \<open>listeners\<close>: the listeners of the before-render event that do nothing to the
    element, each by whether it calls \<^verbatim>\<open>preventDefault\<close>. Listeners that call back into
    the element while the event is being dispatched are the subject of
    \<open>render_listeners\<close> below.
  \<^item> \<open>removeThrows\<close>: whether \<^verbatim>\<open>this.remove()\<close> throws (and what); the DOM's own
    \<^verbatim>\<open>remove\<close> does not.
\<close>

datatype listener = Listener (preventDefault: bool)

record env =
  StreamActions :: "string \<rightharpoonup> (stream_element \<Rightarrow> unit result)"
  listeners :: "listener list"
  removeThrows :: "error option"

subsection \<open>Getters\<close>

definition action :: "stream_element \<Rightarrow> string option" where
  "action el = getAttribute el ''action''"

definition target :: "stream_element \<Rightarrow> string option" where
  "target el = getAttribute el ''target''"

text \<open>
  \<^verbatim>\<open>outerHTML.match(/<[^>]+>/)\<close>: the leftmost \<^verbatim>\<open><\<close> that is followed by at least one
  character other than \<^verbatim>\<open>>\<close> and then by a \<^verbatim>\<open>>\<close>; the match runs up to that first \<^verbatim>\<open>>\<close>.
\<close>

definition tag_body :: "string \<Rightarrow> string option" where
  "tag_body cs =
     (let run = takeWhile (\<lambda>c. c \<noteq> CHR ''>'') cs;
          rest = dropWhile (\<lambda>c. c \<noteq> CHR ''>'') cs
      in if run \<noteq> [] \<and> rest \<noteq> [] then Some (run @ ''>'') else None)"

fun match_tag :: "string \<Rightarrow> string option" where
  "match_tag [] = None"
| "match_tag (c # cs) =
     (if c = CHR ''<''
      then (case tag_body cs of Some m \<Rightarrow> Some (c # m) | None \<Rightarrow> match_tag cs)
      else match_tag cs)"

definition description :: "stream_element \<Rightarrow> string" where
  "description el = (case match_tag (outerHTML el) of Some m \<Rightarrow> m | None \<Rightarrow> ''<turbo-stream>'')"

definition raise :: "stream_element \<Rightarrow> string \<Rightarrow> 'a result" where
  "raise el message = Inl (Error (description el @ '': '' @ message))"

definition performAction :: "env \<Rightarrow> stream_element \<Rightarrow> (stream_element \<Rightarrow> unit result) result" where
  "performAction env el =
     (if truthy (action el)
      then (case StreamActions env (case action el of Some a \<Rightarrow> a | None \<Rightarrow> []) of
              Some actionFunction \<Rightarrow> Inr actionFunction
            | None \<Rightarrow> raise el ''unknown action'')
      else raise el ''action attribute is missing'')"

definition templateElement :: "stream_element \<Rightarrow> node result" where
  "templateElement el =
     (case firstElementChild el of
        Some (HTMLTemplateElement c) \<Rightarrow> Inr (HTMLTemplateElement c)
      | _ \<Rightarrow> raise el ''first child element must be a <template> element'')"

definition templateContent :: "stream_element \<Rightarrow> string result" where
  "templateContent el = (case templateElement el of Inl e \<Rightarrow> Inl e | Inr t \<Rightarrow> Inr (content t))"

subsection \<open>render\<close>

text \<open>
  \<^verbatim>\<open>dispatchEvent\<close> of the cancelable event returns false exactly when a listener called
  \<^verbatim>\<open>preventDefault\<close>.
\<close>

definition beforeRenderEvent :: string where
  "beforeRenderEvent = ''turbo:before-stream-render''"

definition dispatchEvent :: "env \<Rightarrow> bool" where
  "dispatchEvent env = (\<not> list_ex preventDefault (listeners env))"

text \<open>
  \<^verbatim>\<open>this.renderPromise ??= (async () => {...})()\<close>. When the field is set, the call returns
  it. Otherwise the async function runs up to its first \<^verbatim>\<open>await\<close>: it dispatches the event;
  if the event was canceled the function is over and its promise is fulfilled, otherwise it
  is suspended on the animation frame and its promise is pending. The new promise is stored
  in the field and returned. (The \<^verbatim>\<open>async render()\<close> wrapper returns a promise that follows
  the one in the field; the model returns the reference in the field.)

  This is \<^verbatim>\<open>render\<close> for the listeners of \<open>env\<close>, none of which touches the element: between
  the test of the field and its assignment nothing can then reach the element.
  \<open>render_listeners\<close> below is \<^verbatim>\<open>render\<close> with listeners that call back, and agrees with
  this definition when no listener does.
\<close>

definition render :: "env \<Rightarrow> stream_element \<Rightarrow> nat \<times> stream_element" where
  "render env el =
     (case renderPromise el of
        Some p \<Rightarrow> (p, el)
      | None \<Rightarrow>
         (let p = length (promises el);
              el1 = el\<lparr>effects := effects el @ [DispatchEvent beforeRenderEvent]\<rparr>;
              el2 = el1\<lparr>promises := promises el1 @ [if dispatchEvent env then Pending else Fulfilled ()]\<rparr>
          in (p, el2\<lparr>renderPromise := Some p\<rparr>)))"

definition settle :: "nat \<Rightarrow> unit promise \<Rightarrow> stream_element \<Rightarrow> stream_element" where
  "settle p v el = el\<lparr>promises := (promises el)[p := v]\<rparr>"

text \<open>
  Modelled from the spec: \<^verbatim>\<open>nextAnimationFrame\<close> of \<^verbatim>\<open>../util\<close>, "suspend until the next
  animation/paint opportunity (a single frame-aligned yield)". When the frame comes, every
  suspended run of the async function continues after its \<^verbatim>\<open>await\<close>: it reads the getter
  \<^verbatim>\<open>performAction\<close> and calls the function it returns with the element as \<^verbatim>\<open>this\<close>. A throw
  of the getter or of the function rejects the promise; otherwise it is fulfilled.
\<close>

definition resume :: "env \<Rightarrow> nat \<Rightarrow> stream_element \<Rightarrow> stream_element" where
  "resume env p el =
     (if p < length (promises el) \<and> promises el ! p = Pending
      then (case performAction env el of
              Inl e \<Rightarrow> settle p (Rejected e) el
            | Inr actionFunction \<Rightarrow>
               (let el1 = el\<lparr>effects := effects el @ [PerformAction (action el)]\<rparr>
                in case actionFunction el of
                     Inl e \<Rightarrow> settle p (Rejected e) el1
                   | Inr _ \<Rightarrow> settle p (Fulfilled ()) el1))
      else el)"

definition animationFrame :: "env \<Rightarrow> stream_element \<Rightarrow> stream_element" where
  "animationFrame env el = fold (resume env) [0..<length (promises el)] el"

subsection \<open>connectedCallback and disconnect\<close>

definition remove_el :: "env \<Rightarrow> stream_element \<Rightarrow> stream_element result" where
  "remove_el env el =
     (case removeThrows env of
        Some e \<Rightarrow> Inl e
      | None \<Rightarrow> Inr (el\<lparr>isConnected := False\<rparr>))"

text \<open>\<^verbatim>\<open>try { this.remove() } catch {}\<close>\<close>

definition disconnect :: "env \<Rightarrow> stream_element \<Rightarrow> stream_element" where
  "disconnect env el =
     (let el1 = el\<lparr>effects := effects el @ [RemoveCalled]\<rparr>
      in case remove_el env el1 of Inl _ \<Rightarrow> el1 | Inr el2 \<Rightarrow> el2)"

text \<open>
  \<^verbatim>\<open>connectedCallback\<close> up to its \<^verbatim>\<open>await\<close>: it calls \<^verbatim>\<open>render\<close> and is suspended on the
  promise that call returned.
\<close>

definition connectedCallback :: "env \<Rightarrow> stream_element \<Rightarrow> stream_element" where
  "connectedCallback env el =
     (let (p, el1) = render env el in el1\<lparr>awaiting := awaiting el1 @ [p]\<rparr>)"

definition settled :: "stream_element \<Rightarrow> nat \<Rightarrow> bool" where
  "settled el p = (p < length (promises el) \<and> promises el ! p \<noteq> Pending)"

text \<open>
  \<^verbatim>\<open>connectedCallback\<close> after its \<^verbatim>\<open>await\<close>, once the promise \<open>p\<close> is settled: the
  \<^verbatim>\<open>catch\<close> block logs a rejection, the \<^verbatim>\<open>finally\<close> block disconnects.
\<close>

definition connectedCallback_continue :: "env \<Rightarrow> nat \<Rightarrow> stream_element \<Rightarrow> stream_element" where
  "connectedCallback_continue env p el =
     (if p < length (promises el)
      then (case promises el ! p of
              Pending \<Rightarrow> el
            | Fulfilled _ \<Rightarrow> disconnect env el
            | Rejected e \<Rightarrow> disconnect env (el\<lparr>effects := effects el @ [ConsoleError e]\<rparr>))
      else el)"

text \<open>
  A microtask checkpoint: every suspended \<^verbatim>\<open>connectedCallback\<close> whose promise is settled
  continues, in the order of suspension; the others stay suspended.
\<close>

definition microtasks :: "env \<Rightarrow> stream_element \<Rightarrow> stream_element" where
  "microtasks env el =
     fold (connectedCallback_continue env) (filter (settled el) (awaiting el))
       (el\<lparr>awaiting := filter (\<lambda>p. \<not> settled el p) (awaiting el)\<rparr>)"

subsection \<open>Schedules\<close>

text \<open>
  What the host can do with an element, one step at a time: attach it to the document
  (which invokes \<^verbatim>\<open>connectedCallback\<close>), call \<^verbatim>\<open>render()\<close> from a script, deliver an
  animation frame, run a microtask checkpoint. A run keeps the promise every \<^verbatim>\<open>render()\<close>
  call from a script returned.
\<close>

datatype task = Attach | Render | AnimationFrame | Microtasks

fun exec :: "env \<Rightarrow> task \<Rightarrow> stream_element \<times> nat list \<Rightarrow> stream_element \<times> nat list" where
  "exec env Attach (el, rs) = (connectedCallback env (el\<lparr>isConnected := True\<rparr>), rs)"
| "exec env Render (el, rs) = (let (p, el1) = render env el in (el1, rs @ [p]))"
| "exec env AnimationFrame (el, rs) = (animationFrame env el, rs)"
| "exec env Microtasks (el, rs) = (microtasks env el, rs)"

definition run :: "env \<Rightarrow> task list \<Rightarrow> stream_element \<Rightarrow> stream_element \<times> nat list" where
  "run env ts el = fold (exec env) ts (el, [])"

text \<open>A newly created element: nothing rendered, nothing suspended, nothing done yet.\<close>

definition fresh :: "stream_element \<Rightarrow> bool" where
  "fresh el = (renderPromise el = None \<and> promises el = [] \<and> awaiting el = [] \<and> effects el = [])"

subsection \<open>Listeners that call back into the element\<close>

text \<open>
  A listener is JavaScript and can do to the element what any script can: call
  \<^verbatim>\<open>render()\<close> on it, or insert it into the document again, which invokes
  \<^verbatim>\<open>connectedCallback\<close> and so \<^verbatim>\<open>render()\<close>. Such a listener is registered with
  \<^verbatim>\<open>{ once: true }\<close>: the DOM removes it before it runs, so it runs once.
\<close>

datatype callback = NoCall | CallRender | Reinsert

datatype once_listener = OnceListener (cancels: bool) (calls: callback)

text \<open>
  \<^verbatim>\<open>render\<close> and \<^verbatim>\<open>dispatchEvent\<close> with the listeners of \<open>env\<close> and, in addition, the
  once-listeners \<open>ls\<close> in the order of their registration. The order of the source is kept:
  \<^verbatim>\<open>this.renderPromise ??= (async () => {...})()\<close> reads the field, then runs the async
  function up to its \<^verbatim>\<open>await\<close>, that is through \<^verbatim>\<open>dispatchEvent\<close> and every listener, and
  only then stores the promise in the field. A listener that calls \<^verbatim>\<open>render()\<close> does so
  in between, with the once-listeners that have not run yet still registered. When that
  inner call dispatches an event of its own, they all run there and none is left for the
  outer dispatch; \<^verbatim>\<open>preventDefault\<close> cancels the event the listener was called for.
\<close>

fun render_listeners :: "env \<Rightarrow> once_listener list \<Rightarrow> stream_element \<Rightarrow> nat \<times> stream_element"
  and dispatchEvent_listeners :: "env \<Rightarrow> once_listener list \<Rightarrow> stream_element \<Rightarrow> bool \<times> stream_element"
where
  "render_listeners env ls el =
     (case renderPromise el of
        Some p \<Rightarrow> (p, el)
      | None \<Rightarrow>
         (let el1 = el\<lparr>effects := effects el @ [DispatchEvent beforeRenderEvent]\<rparr>;
              (ok, el2) = dispatchEvent_listeners env ls el1;
              p = length (promises el2);
              el3 = el2\<lparr>promises := promises el2 @ [if ok then Pending else Fulfilled ()]\<rparr>
          in (p, el3\<lparr>renderPromise := Some p\<rparr>)))"
| "dispatchEvent_listeners env [] el = (dispatchEvent env, el)"
| "dispatchEvent_listeners env (l # ls) el =
     (let el1 = (case calls l of
                   NoCall \<Rightarrow> el
                 | CallRender \<Rightarrow> snd (render_listeners env ls el)
                 | Reinsert \<Rightarrow>
                    (let (p, el') = render_listeners env ls (el\<lparr>isConnected := True\<rparr>)
                     in el'\<lparr>awaiting := awaiting el' @ [p]\<rparr>));
          (ok, el2) = dispatchEvent_listeners env
                        (if calls l = NoCall \<or> renderPromise el \<noteq> None then ls else []) el1
      in (ok \<and> \<not> cancels l, el2))"

subsection \<open>Counting what an element has done\<close>

fun is_dispatch :: "effect \<Rightarrow> bool" where
  "is_dispatch (DispatchEvent _) = True"
| "is_dispatch _ = False"

fun is_perform :: "effect \<Rightarrow> bool" where
  "is_perform (PerformAction _) = True"
| "is_perform _ = False"

definition dispatched :: "stream_element \<Rightarrow> nat" where
  "dispatched el = length (filter is_dispatch (effects el))"

definition performed :: "stream_element \<Rightarrow> nat" where
  "performed el = length (filter is_perform (effects el))"

definition logged :: "stream_element \<Rightarrow> error list" where
  "logged el = concat (map (\<lambda>x. case x of ConsoleError e \<Rightarrow> [e] | _ \<Rightarrow> []) (effects el))"

text \<open>
  The invariant of every run from a new element: there is at most one promise, the field
  refers to it, every suspended \<^verbatim>\<open>connectedCallback\<close> awaits it, the event has been
  dispatched once if the promise exists and not at all otherwise, and the action function
  has not been invoked while the promise is pending and at most once afterwards.
\<close>

definition render_inv :: "stream_element \<Rightarrow> bool" where
  "render_inv el =
     (case promises el of
        [] \<Rightarrow> renderPromise el = None \<and> awaiting el = [] \<and> dispatched el = 0 \<and> performed el = 0
      | [v] \<Rightarrow> renderPromise el = Some 0 \<and> list_all (\<lambda>p. p = 0) (awaiting el) \<and> dispatched el = 1
               \<and> performed el \<le> (if v = Pending then 0 else 1)
      | _ \<Rightarrow> False)"


subsection \<open>Example stream elements and environments\<close>

text \<open>
  A new element as \<^verbatim>\<open>document.createElement\<close> or the parser makes it, from its attributes,
  its serialisation and its first element child.
\<close>

definition new_stream :: "(string \<rightharpoonup> string) \<Rightarrow> string \<Rightarrow> node option \<Rightarrow> stream_element" where
  "new_stream attrs html child =
     \<lparr>attributes = attrs, outerHTML = html, firstElementChild = child, isConnected = False,
      renderPromise = None, promises = [], awaiting = [], effects = []\<rparr>"

definition quoted :: "string \<Rightarrow> string" where
  "quoted s = CHR 0x22 # s @ [CHR 0x22]"

definition append_stream :: stream_element where
  "append_stream =
     new_stream [''action'' \<mapsto> ''append'', ''target'' \<mapsto> ''messages'']
       (''<turbo-stream action='' @ quoted ''append'' @ '' target='' @ quoted ''messages''
          @ ''><template>Hi</template></turbo-stream>'')
       (Some (HTMLTemplateElement ''Hi''))"

definition no_action_stream :: stream_element where
  "no_action_stream =
     new_stream [''target'' \<mapsto> ''messages'']
       (''<turbo-stream target='' @ quoted ''messages'' @ ''><template></template></turbo-stream>'')
       (Some (HTMLTemplateElement []))"

definition empty_action_stream :: stream_element where
  "empty_action_stream =
     new_stream [''action'' \<mapsto> [], ''target'' \<mapsto> ''messages'']
       (''<turbo-stream action='' @ quoted [] @ '' target='' @ quoted ''messages''
          @ ''><template></template></turbo-stream>'')
       (Some (HTMLTemplateElement []))"

definition bogus_stream :: stream_element where
  "bogus_stream =
     new_stream [''action'' \<mapsto> ''bogus'', ''target'' \<mapsto> ''messages'']
       (''<turbo-stream action='' @ quoted ''bogus'' @ '' target='' @ quoted ''messages''
          @ ''><template></template></turbo-stream>'')
       (Some (HTMLTemplateElement []))"

text \<open>Two elements whose first element child is a \<^verbatim>\<open>div\<close>, not a template.\<close>

definition no_template_stream :: stream_element where
  "no_template_stream =
     new_stream [''action'' \<mapsto> ''append'', ''target'' \<mapsto> ''messages'']
       (''<turbo-stream action='' @ quoted ''append'' @ '' target='' @ quoted ''messages''
          @ ''><div></div></turbo-stream>'')
       (Some (OtherElement ''div''))"

definition no_template_remove_stream :: stream_element where
  "no_template_remove_stream =
     new_stream [''action'' \<mapsto> ''remove'', ''target'' \<mapsto> ''messages'']
       (''<turbo-stream action='' @ quoted ''remove'' @ '' target='' @ quoted ''messages''
          @ ''><div></div></turbo-stream>'')
       (Some (OtherElement ''div''))"

text \<open>
  A registry with an action that reads the template content and one that does not, no
  listener, and a \<^verbatim>\<open>remove\<close> that works; the same with a listener that cancels the event;
  the same with a \<^verbatim>\<open>remove\<close> that throws.
\<close>

definition reads_template :: "stream_element \<Rightarrow> unit result" where
  "reads_template el = (case templateContent el of Inl e \<Rightarrow> Inl e | Inr c \<Rightarrow> Inr ())"

definition example_env :: env where
  "example_env =
     \<lparr>StreamActions = [''append'' \<mapsto> reads_template, ''remove'' \<mapsto> (\<lambda>el. Inr ())],
      listeners = [],
      removeThrows = None\<rparr>"

definition canceling_env :: env where
  "canceling_env = example_env\<lparr>listeners := [Listener False, Listener True]\<rparr>"

definition failing_remove_env :: env where
  "failing_remove_env = example_env\<lparr>removeThrows := Some (Error ''remove failed'')\<rparr>"

section \<open>The frame element (frame\_element.ts)\<close>

text \<open>
  A document is known by its identity (a number); what the element reads of it is the
  attribute map of its root element, if it has a root element.
\<close>

record document_node =
  documentElement :: "(string \<rightharpoonup> string) option"

text \<open>
  \<open>loaded_own\<close> is the own property \<^verbatim>\<open>loaded\<close> that \<^verbatim>\<open>Object.defineProperty\<close> puts on the
  instance (\<open>None\<close> while only the getter of the class exists); its value is a reference to
  a promise of the controller.
\<close>

record frame_element = html_element +
  ownerDocument :: "nat option"
  loaded_own :: "nat option"

text \<open>
  Modelled from the spec: \<^verbatim>\<open>FrameController\<close> of \<^verbatim>\<open>../core/frames/frame_controller\<close>, an
  opaque controller exposing \<^verbatim>\<open>connect\<close>, \<^verbatim>\<open>disconnect\<close> and
  \<^verbatim>\<open>visit(url) -> Promise<Response | absent>\<close>. The model records every call in order,
  and \<^verbatim>\<open>visit\<close> returns a new pending promise of the controller's; when and how that
  promise settles is up to the controller.
\<close>

datatype controller_call = Connect | Disconnect | Visit string

record frame_world =
  frame :: frame_element
  document :: nat
  documents :: "nat \<Rightarrow> document_node"
  controller_calls :: "controller_call list"
  controller_promises :: "string option promise list"

definition visit :: "string \<Rightarrow> frame_world \<Rightarrow> nat \<times> frame_world" where
  "visit url w =
     (length (controller_promises w),
      w\<lparr>controller_calls := controller_calls w @ [Visit url],
        controller_promises := controller_promises w @ [Pending]\<rparr>)"

definition connect :: "frame_world \<Rightarrow> frame_world" where
  "connect w = w\<lparr>controller_calls := controller_calls w @ [Connect]\<rparr>"

definition disconnect_controller :: "frame_world \<Rightarrow> frame_world" where
  "disconnect_controller w = w\<lparr>controller_calls := controller_calls w @ [Disconnect]\<rparr>"

subsection \<open>Getters\<close>

definition src :: "frame_world \<Rightarrow> string option" where
  "src w = getAttribute (frame w) ''src''"

definition disabled :: "frame_world \<Rightarrow> bool" where
  "disabled w = hasAttribute (frame w) ''disabled''"

definition autoscroll :: "frame_world \<Rightarrow> bool" where
  "autoscroll w = hasAttribute (frame w) ''autoscroll''"

text \<open>
  \<^verbatim>\<open>this.ownerDocument?.documentElement?.hasAttribute("data-turbo-preview")\<close>: \<open>None\<close> is
  \<^verbatim>\<open>undefined\<close>, the value of the optional chain when a link is missing.
\<close>

definition isPreview :: "frame_world \<Rightarrow> bool option" where
  "isPreview w =
     (case ownerDocument (frame w) of
        None \<Rightarrow> None
      | Some d \<Rightarrow>
         (case documentElement (documents w d) of
            None \<Rightarrow> None
          | Some root \<Rightarrow> Some (root ''data-turbo-preview'' \<noteq> None)))"

text \<open>\<^verbatim>\<open>this.ownerDocument === document && !this.isPreview\<close>\<close>

definition isActive :: "frame_world \<Rightarrow> bool" where
  "isActive w = (ownerDocument (frame w) = Some (document w) \<and> isPreview w \<noteq> Some True)"

text \<open>
  The value of \<^verbatim>\<open>loaded\<close>: the own property when it has been defined, otherwise what the
  getter of the class returns, \<^verbatim>\<open>Promise.resolve(undefined)\<close>.
\<close>

datatype loaded_value = ResolvedUndefined | ControllerPromise nat

definition loaded :: "frame_world \<Rightarrow> loaded_value" where
  "loaded w = (case loaded_own (frame w) of None \<Rightarrow> ResolvedUndefined | Some p \<Rightarrow> ControllerPromise p)"

subsection \<open>attributeChangedCallback and the attribute operations of the DOM\<close>

definition observedAttributes :: "string list" where
  "observedAttributes = [''src'']"

definition attributeChangedCallback :: "frame_world \<Rightarrow> frame_world" where
  "attributeChangedCallback w =
     (if truthy (src w) \<and> isActive w
      then (let (value, w1) = visit (case src w of Some u \<Rightarrow> u | None \<Rightarrow> []) w
            in w1\<lparr>frame := (frame w1)\<lparr>loaded_own := Some value\<rparr>\<rparr>)
      else w)"

text \<open>
  \<^verbatim>\<open>setAttribute\<close> and \<^verbatim>\<open>removeAttribute\<close> of the DOM on a custom element: the attribute
  map changes, then the element's \<^verbatim>\<open>attributeChangedCallback\<close> runs if the attribute is an
  observed one. Setting an attribute always counts as a change; removing an attribute that
  is not there changes nothing.
\<close>

definition setAttribute :: "string \<Rightarrow> string \<Rightarrow> frame_world \<Rightarrow> frame_world" where
  "setAttribute name v w =
     (let w1 = w\<lparr>frame := (frame w)\<lparr>attributes := (attributes (frame w))(name \<mapsto> v)\<rparr>\<rparr>
      in if name \<in> set observedAttributes then attributeChangedCallback w1 else w1)"

definition removeAttribute :: "string \<Rightarrow> frame_world \<Rightarrow> frame_world" where
  "removeAttribute name w =
     (if attributes (frame w) name = None then w
      else (let w1 = w\<lparr>frame := (frame w)\<lparr>attributes := (attributes (frame w))(name := None)\<rparr>\<rparr>
            in if name \<in> set observedAttributes then attributeChangedCallback w1 else w1))"

subsection \<open>Setters\<close>

definition set_src :: "string option \<Rightarrow> frame_world \<Rightarrow> frame_world" where
  "set_src v w =
     (if truthy v then setAttribute ''src'' (case v of Some u \<Rightarrow> u | None \<Rightarrow> []) w
      else removeAttribute ''src'' w)"

definition set_disabled :: "bool \<Rightarrow> frame_world \<Rightarrow> frame_world" where
  "set_disabled v w = (if v then setAttribute ''disabled'' [] w else removeAttribute ''disabled'' w)"

definition set_autoscroll :: "bool \<Rightarrow> frame_world \<Rightarrow> frame_world" where
  "set_autoscroll v w = (if v then setAttribute ''autoscroll'' [] w else removeAttribute ''autoscroll'' w)"

subsection \<open>What happens to a frame element\<close>

text \<open>
  The host attaches and detaches the element, scripts set and remove attributes and assign
  the properties, the preview marker of a document's root element comes and goes, the
  element is adopted by another document, and promises of the controller settle.
\<close>

datatype frame_task =
    Connected
  | Disconnected
  | SetAttribute string string
  | RemoveAttribute string
  | AssignSrc "string option"
  | AssignDisabled bool
  | AssignAutoscroll bool
  | MarkPreview nat bool
  | Adopt nat
  | Settle nat "string option promise"

definition mark_preview :: "nat \<Rightarrow> bool \<Rightarrow> frame_world \<Rightarrow> frame_world" where
  "mark_preview d b w =
     (case documentElement (documents w d) of
        None \<Rightarrow> w
      | Some root \<Rightarrow>
         w\<lparr>documents := (documents w)
             (d := (documents w d)\<lparr>documentElement :=
                Some (root(''data-turbo-preview'' := (if b then Some [] else None)))\<rparr>)\<rparr>)"

definition settle_controller :: "nat \<Rightarrow> string option promise \<Rightarrow> frame_world \<Rightarrow> frame_world" where
  "settle_controller p v w =
     (if p < length (controller_promises w) \<and> controller_promises w ! p = Pending
      then w\<lparr>controller_promises := (controller_promises w)[p := v]\<rparr>
      else w)"

fun frame_exec :: "frame_task \<Rightarrow> frame_world \<Rightarrow> frame_world" where
  "frame_exec Connected w = connect w"
| "frame_exec Disconnected w = disconnect_controller w"
| "frame_exec (SetAttribute name v) w = setAttribute name v w"
| "frame_exec (RemoveAttribute name) w = removeAttribute name w"
| "frame_exec (AssignSrc v) w = set_src v w"
| "frame_exec (AssignDisabled v) w = set_disabled v w"
| "frame_exec (AssignAutoscroll v) w = set_autoscroll v w"
| "frame_exec (MarkPreview d b) w = mark_preview d b w"
| "frame_exec (Adopt d) w = w\<lparr>frame := (frame w)\<lparr>ownerDocument := Some d\<rparr>\<rparr>"
| "frame_exec (Settle p v) w = settle_controller p v w"

definition frame_run :: "frame_task list \<Rightarrow> frame_world \<Rightarrow> frame_world" where
  "frame_run ts w = fold frame_exec ts w"

text \<open>The \<^verbatim>\<open>visit\<close> calls the controller has received, in order.\<close>

fun visits :: "controller_call list \<Rightarrow> string list" where
  "visits [] = []"
| "visits (Visit url # cs) = url # visits cs"
| "visits (_ # cs) = visits cs"

subsection \<open>The forwarding rule in the words of the specification\<close>

text \<open>
  The specification's rule, as a definition of its own to compare the code with: a task
  that changes the watched attribute to a value \<open>v\<close> is forwarded exactly when \<open>v\<close> is
  non-empty and the element is active at that moment; nothing else is ever forwarded.
  \<open>changed_src\<close> gives the new value of the attribute (\<open>Some None\<close>: removed) for the
  tasks that change it.
\<close>

fun changed_src :: "frame_task \<Rightarrow> string option option" where
  "changed_src (SetAttribute name v) = (if name = ''src'' then Some (Some v) else None)"
| "changed_src (RemoveAttribute name) = (if name = ''src'' then Some None else None)"
| "changed_src (AssignSrc v) = Some (if truthy v then v else None)"
| "changed_src _ = None"

definition spec_forwarded :: "frame_task \<Rightarrow> frame_world \<Rightarrow> string list" where
  "spec_forwarded t w =
     (case changed_src t of
        Some (Some v) \<Rightarrow> if v \<noteq> [] \<and> isActive w then [v] else []
      | _ \<Rightarrow> [])"

fun spec_visits :: "frame_task list \<Rightarrow> frame_world \<Rightarrow> string list" where
  "spec_visits [] w = []"
| "spec_visits (t # ts) w = spec_forwarded t w @ spec_visits ts (frame_exec t w)"

subsection \<open>Example frames\<close>

text \<open>
  A frame element without attributes in the live document (document 0, whose root element
  carries no marker), the same element in a document marked as a preview, and the same
  element with a source.
\<close>

definition live_world :: frame_world where
  "live_world =
     \<lparr>frame = \<lparr>attributes = Map.empty, ownerDocument = Some 0, loaded_own = None\<rparr>,
      document = 0,
      documents = (\<lambda>d. \<lparr>documentElement = Some Map.empty\<rparr>),
      controller_calls = [],
      controller_promises = []\<rparr>"

definition preview_world :: frame_world where
  "preview_world = mark_preview 0 True live_world"

definition with_src :: "string \<Rightarrow> frame_world \<Rightarrow> frame_world" where
  "with_src u w = w\<lparr>frame := (frame w)\<lparr>attributes := (attributes (frame w))(''src'' \<mapsto> u)\<rparr>\<rparr>"

section \<open>Properties of the stream element\<close>

subsection \<open>The invariant is kept by every step\<close>

lemma dispatched_append [simp]:
  "dispatched (el\<lparr>effects := effects el @ xs\<rparr>) = dispatched el + length (filter is_dispatch xs)"
  by (simp add: dispatched_def)

lemma performed_append [simp]:
  "performed (el\<lparr>effects := effects el @ xs\<rparr>) = performed el + length (filter is_perform xs)"
  by (simp add: performed_def)

lemma render_None:
  "renderPromise el = None \<Longrightarrow>
   render env el =
     (length (promises el),
      el\<lparr>effects := effects el @ [DispatchEvent beforeRenderEvent],
         promises := promises el @ [if dispatchEvent env then Pending else Fulfilled ()],
         renderPromise := Some (length (promises el))\<rparr>)"
  by (simp add: render_def Let_def)

lemma render_Some: "renderPromise el = Some p \<Longrightarrow> render env el = (p, el)"
  by (simp add: render_def)

lemma render_inv_fst: "render_inv el \<Longrightarrow> fst (render env el) = 0"
  by (auto simp add: render_inv_def render_None render_Some split: list.splits)

lemma render_inv_snd: "render_inv el \<Longrightarrow> render_inv (snd (render env el))"
  by (auto simp add: render_inv_def render_None render_Some dispatched_def performed_def
      split: list.splits)

lemma fresh_inv: "fresh el \<Longrightarrow> render_inv el"
  by (simp add: fresh_def render_inv_def dispatched_def performed_def)

lemma animationFrame_empty: "promises el = [] \<Longrightarrow> animationFrame env el = el"
  by (simp add: animationFrame_def)

lemma animationFrame_single: "promises el = [v] \<Longrightarrow> animationFrame env el = resume env 0 el"
  by (simp add: animationFrame_def)

lemma resume_settled: "promises el = [v] \<Longrightarrow> v \<noteq> Pending \<Longrightarrow> resume env 0 el = el"
  by (simp add: resume_def)

lemma resume_pending:
  "promises el = [Pending] \<Longrightarrow>
   resume env 0 el =
     (case performAction env el of
        Inl e \<Rightarrow> el\<lparr>promises := [Rejected e]\<rparr>
      | Inr f \<Rightarrow>
         (case f el of
            Inl e \<Rightarrow> el\<lparr>effects := effects el @ [PerformAction (action el)], promises := [Rejected e]\<rparr>
          | Inr _ \<Rightarrow> el\<lparr>effects := effects el @ [PerformAction (action el)], promises := [Fulfilled ()]\<rparr>))"
  by (simp add: resume_def settle_def Let_def split: sum.splits)

lemma animationFrame_inv: "render_inv el \<Longrightarrow> render_inv (animationFrame env el)"
proof -
  assume inv: "render_inv el"
  show ?thesis
  proof (cases "promises el")
    case Nil
    with inv show ?thesis by (simp add: animationFrame_empty)
  next
    case (Cons v vs)
    with inv have single: "promises el = [v]"
      by (simp add: render_inv_def split: list.splits)
    show ?thesis
    proof (cases "v = Pending")
      case True
      with single inv show ?thesis
        by (auto simp add: animationFrame_single resume_pending render_inv_def dispatched_def
            performed_def split: sum.splits)
    next
      case False
      with single inv show ?thesis
        by (simp add: animationFrame_single resume_settled)
    qed
  qed
qed

lemma render_promises_ne: "render_inv el \<Longrightarrow> promises (snd (render env el)) \<noteq> []"
  by (cases "renderPromise el")
     (auto simp add: render_None render_Some render_inv_def split: list.splits)

lemma connectedCallback_inv: "render_inv el \<Longrightarrow> render_inv (connectedCallback env el)"
proof -
  assume inv: "render_inv el"
  obtain p el1 where r: "render env el = (p, el1)" by (cases "render env el")
  from inv r have p: "p = 0" using render_inv_fst [of el env] by simp
  from inv r have inv1: "render_inv el1" using render_inv_snd [of el env] by simp
  from inv r have ne: "promises el1 \<noteq> []" using render_promises_ne [of el env] by simp
  show ?thesis
    using inv1 ne p r
    by (auto simp add: connectedCallback_def render_inv_def dispatched_def performed_def
        split: list.splits)
qed

lemma disconnect_eq:
  "disconnect env el =
     el\<lparr>effects := effects el @ [RemoveCalled],
        isConnected := (if removeThrows env = None then False else isConnected el)\<rparr>"
  by (cases "removeThrows env") (simp_all add: disconnect_def remove_el_def Let_def)

lemma continue_eq:
  "connectedCallback_continue env p el =
     (if settled el p
      then el\<lparr>effects := effects el
                 @ (case promises el ! p of Rejected e \<Rightarrow> [ConsoleError e] | _ \<Rightarrow> [])
                 @ [RemoveCalled],
              isConnected := (if removeThrows env = None then False else isConnected el)\<rparr>
      else el)"
  by (cases "promises el ! p")
     (simp_all add: connectedCallback_continue_def settled_def disconnect_eq)

lemma continue_promises [simp]: "promises (connectedCallback_continue env p el) = promises el"
  by (simp add: continue_eq)

lemma continue_renderPromise [simp]:
  "renderPromise (connectedCallback_continue env p el) = renderPromise el"
  by (simp add: continue_eq)

lemma continue_awaiting [simp]: "awaiting (connectedCallback_continue env p el) = awaiting el"
  by (simp add: continue_eq)

lemma continue_dispatched [simp]: "dispatched (connectedCallback_continue env p el) = dispatched el"
  by (simp add: continue_eq dispatched_def split: promise.splits)

lemma continue_performed [simp]: "performed (connectedCallback_continue env p el) = performed el"
  by (simp add: continue_eq performed_def split: promise.splits)

lemma fold_continue_promises [simp]:
  "promises (fold (connectedCallback_continue env) ps el) = promises el"
  by (induction ps arbitrary: el) simp_all

lemma fold_continue_renderPromise [simp]:
  "renderPromise (fold (connectedCallback_continue env) ps el) = renderPromise el"
  by (induction ps arbitrary: el) simp_all

lemma fold_continue_awaiting [simp]:
  "awaiting (fold (connectedCallback_continue env) ps el) = awaiting el"
  by (induction ps arbitrary: el) simp_all

lemma fold_continue_dispatched [simp]:
  "dispatched (fold (connectedCallback_continue env) ps el) = dispatched el"
  by (induction ps arbitrary: el) simp_all

lemma fold_continue_performed [simp]:
  "performed (fold (connectedCallback_continue env) ps el) = performed el"
  by (induction ps arbitrary: el) simp_all

lemma microtasks_promises [simp]: "promises (microtasks env el) = promises el"
  by (simp add: microtasks_def)

lemma microtasks_renderPromise [simp]: "renderPromise (microtasks env el) = renderPromise el"
  by (simp add: microtasks_def)

lemma microtasks_awaiting:
  "awaiting (microtasks env el) = filter (\<lambda>p. \<not> settled el p) (awaiting el)"
  by (simp add: microtasks_def)

lemma microtasks_dispatched [simp]: "dispatched (microtasks env el) = dispatched el"
  by (simp add: microtasks_def dispatched_def [of "el\<lparr>awaiting := _\<rparr>"] dispatched_def [of el])

lemma microtasks_performed [simp]: "performed (microtasks env el) = performed el"
  by (simp add: microtasks_def performed_def [of "el\<lparr>awaiting := _\<rparr>"] performed_def [of el])

lemma microtasks_inv: "render_inv el \<Longrightarrow> render_inv (microtasks env el)"
  by (auto simp add: render_inv_def microtasks_awaiting list_all_iff split: list.splits)

lemma attach_inv: "render_inv el \<Longrightarrow> render_inv (el\<lparr>isConnected := b\<rparr>)"
  by (auto simp add: render_inv_def dispatched_def performed_def split: list.splits)

lemma exec_inv: "render_inv el \<Longrightarrow> render_inv (fst (exec env t (el, rs)))"
  by (cases t)
     (simp_all add: connectedCallback_inv attach_inv animationFrame_inv microtasks_inv
        render_inv_snd split_beta)

lemma exec_returns:
  "render_inv el \<Longrightarrow> list_all (\<lambda>p. p = 0) rs \<Longrightarrow> list_all (\<lambda>p. p = 0) (snd (exec env t (el, rs)))"
  by (cases t) (simp_all add: split_beta render_inv_fst)

lemma fold_exec_inv:
  "render_inv el \<Longrightarrow> render_inv (fst (fold (exec env) ts (el, rs)))"
proof (induction ts arbitrary: el rs)
  case Nil
  then show ?case by simp
next
  case (Cons t ts)
  obtain el1 rs1 where e: "exec env t (el, rs) = (el1, rs1)" by (cases "exec env t (el, rs)")
  with Cons.prems have "render_inv el1" using exec_inv [of el env t rs] by simp
  then show ?case using Cons.IH [of el1 rs1] e by simp
qed

lemma fold_exec_returns:
  "render_inv el \<Longrightarrow> list_all (\<lambda>p. p = 0) rs \<Longrightarrow>
   list_all (\<lambda>p. p = 0) (snd (fold (exec env) ts (el, rs)))"
proof (induction ts arbitrary: el rs)
  case Nil
  then show ?case by simp
next
  case (Cons t ts)
  obtain el1 rs1 where e: "exec env t (el, rs) = (el1, rs1)" by (cases "exec env t (el, rs)")
  with Cons.prems have "render_inv el1" "list_all (\<lambda>p. p = 0) rs1"
    using exec_inv [of el env t rs] exec_returns [of el rs env t] by simp_all
  then show ?case using Cons.IH [of el1 rs1] e by simp
qed

lemma run_inv: "fresh el \<Longrightarrow> render_inv (fst (run env ts el))"
  by (simp add: run_def fold_exec_inv fresh_inv)

subsection \<open>Consequences of the invariant\<close>

lemma inv_dispatched: "render_inv el \<Longrightarrow> dispatched el = length (promises el)"
  by (auto simp add: render_inv_def split: list.splits)

lemma inv_performed: "render_inv el \<Longrightarrow> performed el \<le> 1"
  by (auto simp add: render_inv_def split: list.splits if_splits)

lemma inv_length: "render_inv el \<Longrightarrow> length (promises el) \<le> 1"
  by (auto simp add: render_inv_def split: list.splits)

lemma inv_awaiting: "render_inv el \<Longrightarrow> list_all (\<lambda>p. p = 0) (awaiting el)"
  by (auto simp add: render_inv_def split: list.splits)

lemma exec_promises_empty:
  "render_inv el \<Longrightarrow>
   (promises (fst (exec env t (el, rs))) = []) = (promises el = [] \<and> t \<noteq> Render \<and> t \<noteq> Attach)"
proof (cases t)
  case Attach
  assume "render_inv el"
  then have "render_inv (el\<lparr>isConnected := True\<rparr>)" by (rule attach_inv)
  then have "promises (snd (render env (el\<lparr>isConnected := True\<rparr>))) \<noteq> []"
    by (rule render_promises_ne)
  with Attach show ?thesis by (simp add: connectedCallback_def split_beta)
next
  case Render
  assume "render_inv el"
  then have "promises (snd (render env el)) \<noteq> []" by (rule render_promises_ne)
  with Render show ?thesis by (simp add: split_beta)
next
  case AnimationFrame
  assume inv: "render_inv el"
  show ?thesis
  proof (cases "promises el")
    case Nil
    with AnimationFrame show ?thesis by (simp add: animationFrame_empty)
  next
    case (Cons v vs)
    with inv have single: "promises el = [v]" by (simp add: render_inv_def split: list.splits)
    have "render_inv (animationFrame env el)" using inv by (rule animationFrame_inv)
    moreover have "dispatched (animationFrame env el) = dispatched el"
      using single
      by (cases "v = Pending")
         (auto simp add: animationFrame_single resume_pending resume_settled dispatched_def
            split: sum.splits)
    ultimately have "length (promises (animationFrame env el)) = length (promises el)"
      using inv by (simp add: inv_dispatched [symmetric])
    with AnimationFrame single show ?thesis by auto
  qed
next
  case Microtasks
  then show ?thesis by simp
qed

lemma fold_exec_promises_empty:
  "render_inv el \<Longrightarrow>
   (promises (fst (fold (exec env) ts (el, rs))) = [])
     = (promises el = [] \<and> Render \<notin> set ts \<and> Attach \<notin> set ts)"
proof (induction ts arbitrary: el rs)
  case Nil
  then show ?case by simp
next
  case (Cons t ts)
  obtain el1 rs1 where e: "exec env t (el, rs) = (el1, rs1)" by (cases "exec env t (el, rs)")
  with Cons.prems have inv1: "render_inv el1" using exec_inv [of el env t rs] by simp
  have "(promises el1 = []) = (promises el = [] \<and> t \<noteq> Render \<and> t \<noteq> Attach)"
    using exec_promises_empty [OF Cons.prems, of env t rs] e by simp
  then show ?case using Cons.IH [OF inv1, of rs1] e by auto
qed

lemma run_dispatched:
  assumes "fresh el"
  shows "dispatched (fst (run env ts el)) = (if Render \<in> set ts \<or> Attach \<in> set ts then 1 else 0)"
proof -
  let ?el = "fst (run env ts el)"
  have inv: "render_inv ?el" using assms by (rule run_inv)
  have e: "(promises ?el = []) = (Render \<notin> set ts \<and> Attach \<notin> set ts)"
    using fold_exec_promises_empty [OF fresh_inv [OF assms], of env ts "[]"] assms
    by (simp add: run_def fresh_def)
  have "length (promises ?el) = (if promises ?el = [] then 0 else 1)"
    using inv_length [OF inv] by (cases "promises ?el") simp_all
  with e show ?thesis using inv_dispatched [OF inv] by auto
qed

lemma fold_exec_count:
  "length (snd (fold (exec env) ts (el, rs))) = length rs + length (filter (\<lambda>t. t = Render) ts)"
proof (induction ts arbitrary: el rs)
  case Nil
  show ?case by simp
next
  case (Cons t ts)
  show ?case by (cases t) (simp_all add: Cons.IH split_beta)
qed

lemma exec_settled_promises:
  "render_inv el \<Longrightarrow> settled el 0 \<Longrightarrow> promises (fst (exec env t (el, rs))) = promises el"
proof -
  assume inv: "render_inv el" and s: "settled el 0"
  then obtain v where single: "promises el = [v]" and v: "v \<noteq> Pending"
    by (auto simp add: render_inv_def settled_def split: list.splits)
  from inv single have rp: "renderPromise el = Some 0"
    by (simp add: render_inv_def)
  show ?thesis
    using single v rp
    by (cases t)
       (simp_all add: connectedCallback_def render_Some animationFrame_single resume_settled)
qed

lemma fold_exec_settled_promises:
  "render_inv el \<Longrightarrow> settled el 0 \<Longrightarrow> promises (fst (fold (exec env) ts (el, rs))) = promises el"
proof (induction ts arbitrary: el rs)
  case Nil
  show ?case by simp
next
  case (Cons t ts)
  obtain el1 rs1 where e: "exec env t (el, rs) = (el1, rs1)" by (cases "exec env t (el, rs)")
  have p1: "promises el1 = promises el"
    using exec_settled_promises [OF Cons.prems, of env t rs] e by simp
  have inv1: "render_inv el1" using exec_inv [OF Cons.prems(1), of env t rs] e by simp
  have s1: "settled el1 0" using Cons.prems(2) p1 by (simp add: settled_def)
  show ?case using Cons.IH [OF inv1 s1, of rs1] e p1 by simp
qed

lemma run_append:
  "run env (ts @ ts') el = fold (exec env) ts' (fst (run env ts el), snd (run env ts el))"
  by (simp add: run_def)

subsection \<open>Runs in which the event is canceled\<close>

lemma logged_append [simp]:
  "logged (el\<lparr>effects := effects el @ xs\<rparr>)
     = logged el @ concat (map (\<lambda>x. case x of ConsoleError e \<Rightarrow> [e] | _ \<Rightarrow> []) xs)"
  by (simp add: logged_def)









subsection \<open>Removal once the promise is settled\<close>

lemma continue_isConnected_settled:
  "removeThrows env = None \<Longrightarrow> settled el p \<Longrightarrow> \<not> isConnected (connectedCallback_continue env p el)"
  by (simp add: continue_eq)

lemma continue_isConnected_stays:
  "removeThrows env = None \<Longrightarrow> \<not> isConnected el \<Longrightarrow>
   \<not> isConnected (connectedCallback_continue env p el)"
  by (simp add: continue_eq)

lemma continue_settled [simp]: "settled (connectedCallback_continue env p el) q = settled el q"
  by (simp add: settled_def)

lemma fold_continue_isConnected_stays:
  "removeThrows env = None \<Longrightarrow> \<not> isConnected el \<Longrightarrow>
   \<not> isConnected (fold (connectedCallback_continue env) ps el)"
  by (induction ps arbitrary: el) (simp_all add: continue_isConnected_stays)

lemma fold_continue_isConnected:
  "removeThrows env = None \<Longrightarrow> ps \<noteq> [] \<Longrightarrow> list_all (settled el) ps \<Longrightarrow>
   \<not> isConnected (fold (connectedCallback_continue env) ps el)"
  by (cases ps)
     (simp_all add: fold_continue_isConnected_stays continue_isConnected_settled)

lemma microtasks_removed:
  assumes "removeThrows env = None" and "isConnected el \<longrightarrow> awaiting el \<noteq> []"
  shows "isConnected (microtasks env el) \<longrightarrow> awaiting (microtasks env el) \<noteq> []"
proof (cases "filter (settled el) (awaiting el) = []")
  case True
  then have "filter (\<lambda>p. \<not> settled el p) (awaiting el) = awaiting el"
    by (simp add: filter_empty_conv)
  with True assms(2) show ?thesis by (simp add: microtasks_def)
next
  case False
  have "list_all (settled (el\<lparr>awaiting := filter (\<lambda>p. \<not> settled el p) (awaiting el)\<rparr>))
          (filter (settled el) (awaiting el))"
    by (simp add: list_all_iff settled_def)
  from fold_continue_isConnected [OF assms(1) False this]
  show ?thesis by (simp add: microtasks_def)
qed

lemma render_awaiting [simp]: "awaiting (snd (render env el)) = awaiting el"
  by (cases "renderPromise el") (simp_all add: render_None render_Some)

lemma render_isConnected [simp]: "isConnected (snd (render env el)) = isConnected el"
  by (cases "renderPromise el") (simp_all add: render_None render_Some)

lemma resume_awaiting [simp]: "awaiting (resume env p el) = awaiting el"
  by (simp add: resume_def settle_def Let_def split: sum.splits)

lemma resume_isConnected [simp]: "isConnected (resume env p el) = isConnected el"
  by (simp add: resume_def settle_def Let_def split: sum.splits)

lemma fold_resume_awaiting [simp]: "awaiting (fold (resume env) ps el) = awaiting el"
  by (induction ps arbitrary: el) simp_all

lemma fold_resume_isConnected [simp]: "isConnected (fold (resume env) ps el) = isConnected el"
  by (induction ps arbitrary: el) simp_all

lemma exec_removed:
  assumes "removeThrows env = None" and "t = Attach \<or> (isConnected el \<longrightarrow> awaiting el \<noteq> [])"
  shows "isConnected (fst (exec env t (el, rs))) \<longrightarrow> awaiting (fst (exec env t (el, rs))) \<noteq> []"
proof (cases t)
  case Attach
  then show ?thesis by (simp add: connectedCallback_def split_beta)
next
  case Render
  with assms(2) show ?thesis by (simp add: split_beta)
next
  case AnimationFrame
  with assms(2) show ?thesis by (simp add: animationFrame_def)
next
  case Microtasks
  with assms show ?thesis using microtasks_removed [of env el] by simp
qed

lemma fold_exec_removed:
  "removeThrows env = None \<Longrightarrow> Attach \<in> set ts \<or> (isConnected el \<longrightarrow> awaiting el \<noteq> []) \<Longrightarrow>
   isConnected (fst (fold (exec env) ts (el, rs)))
     \<longrightarrow> awaiting (fst (fold (exec env) ts (el, rs))) \<noteq> []"
proof (induction ts arbitrary: el rs)
  case Nil
  then show ?case by simp
next
  case (Cons t ts)
  obtain el1 rs1 where e: "exec env t (el, rs) = (el1, rs1)" by (cases "exec env t (el, rs)")
  have "Attach \<in> set ts \<or> (isConnected el1 \<longrightarrow> awaiting el1 \<noteq> [])"
  proof (cases "Attach \<in> set ts")
    case True
    then show ?thesis by simp
  next
    case False
    with Cons.prems(2) have "t = Attach \<or> (isConnected el \<longrightarrow> awaiting el \<noteq> [])" by auto
    from exec_removed [OF Cons.prems(1) this, of rs] e show ?thesis by simp
  qed
  from Cons.IH [OF Cons.prems(1) this, of rs1] e show ?case by simp
qed

lemma run_then_microtasks:
  assumes f: "fresh el" and a: "Attach \<in> set ts" and s: "settled (fst (run env ts el)) 0"
  shows "awaiting (fst (run env (ts @ [Microtasks]) el)) = []
         \<and> (removeThrows env = None \<longrightarrow> \<not> isConnected (fst (run env (ts @ [Microtasks]) el)))"
proof -
  let ?el = "fst (run env ts el)"
  have m: "fst (run env (ts @ [Microtasks]) el) = microtasks env ?el"
    by (simp add: run_def split_beta) (metis exec.simps(4) fst_conv prod.collapse)
  have inv: "render_inv ?el" using f by (rule run_inv)
  have all: "list_all (settled ?el) (awaiting ?el)"
    using inv_awaiting [OF inv] s by (auto simp add: list_all_iff)
  then have aw: "awaiting (microtasks env ?el) = []"
    by (simp add: microtasks_awaiting filter_empty_conv list_all_iff)
  have "removeThrows env = None \<longrightarrow> \<not> isConnected (microtasks env ?el)"
  proof
    assume r: "removeThrows env = None"
    have "isConnected ?el \<longrightarrow> awaiting ?el \<noteq> []"
      using fold_exec_removed [OF r, of ts el "[]"] a by (simp add: run_def)
    from microtasks_removed [OF r this] aw show "\<not> isConnected (microtasks env ?el)" by simp
  qed
  with aw m show ?thesis by simp
qed

subsection \<open>One attachment, one frame, one checkpoint\<close>

lemma attach_fresh:
  "fresh el \<Longrightarrow>
   connectedCallback env (el\<lparr>isConnected := True\<rparr>) =
     el\<lparr>isConnected := True, effects := [DispatchEvent beforeRenderEvent],
        promises := [if dispatchEvent env then Pending else Fulfilled ()],
        renderPromise := Some 0, awaiting := [0]\<rparr>"
  by (simp add: fresh_def connectedCallback_def render_None)

lemma render_fresh:
  "fresh el \<Longrightarrow>
   render env el =
     (0, el\<lparr>effects := [DispatchEvent beforeRenderEvent],
            promises := [if dispatchEvent env then Pending else Fulfilled ()],
            renderPromise := Some 0\<rparr>)"
  by (simp add: fresh_def render_None)

lemma performAction_cong:
  "attributes el' = attributes el \<Longrightarrow> outerHTML el' = outerHTML el \<Longrightarrow>
   performAction env el' = performAction env el"
  by (simp add: performAction_def action_def getAttribute_def raise_def description_def
      split: option.splits)

lemma action_cong: "attributes el' = attributes el \<Longrightarrow> action el' = action el"
  by (simp add: action_def getAttribute_def)

lemma pipeline_effects:
  assumes f: "fresh el"
  shows "effects (fst (run env [Attach, AnimationFrame, Microtasks] el)) =
     DispatchEvent beforeRenderEvent #
       (if dispatchEvent env
        then (case performAction env el of
                Inl e \<Rightarrow> [ConsoleError e]
              | Inr f \<Rightarrow> PerformAction (action el) #
                  (case f (fst (run env [Attach] el)) of Inl e \<Rightarrow> [ConsoleError e] | Inr _ \<Rightarrow> []))
        else [])
       @ [RemoveCalled]"
    and "awaiting (fst (run env [Attach, AnimationFrame, Microtasks] el)) = []"
    and "isConnected (fst (run env [Attach, AnimationFrame, Microtasks] el)) = (removeThrows env \<noteq> None)"
proof -
  let ?el1 = "connectedCallback env (el\<lparr>isConnected := True\<rparr>)"
  have pa: "performAction env ?el1 = performAction env el"
    by (rule performAction_cong) (simp_all add: attach_fresh [OF f])
  have ac: "action ?el1 = action el"
    by (rule action_cong) (simp add: attach_fresh [OF f])
  have p1: "promises ?el1 = [if dispatchEvent env then Pending else Fulfilled ()]"
    by (simp add: attach_fresh [OF f])
  have e1: "effects ?el1 = [DispatchEvent beforeRenderEvent]"
    and a1: "awaiting ?el1 = [0]" and c1: "isConnected ?el1"
    by (simp_all add: attach_fresh [OF f])
  let ?el2 = "animationFrame env ?el1"
  have r: "fst (run env [Attach, AnimationFrame, Microtasks] el) = microtasks env ?el2"
    and r1: "fst (run env [Attach] el) = ?el1"
    by (simp_all add: run_def)
  have a2: "awaiting ?el2 = [0]" and c2: "isConnected ?el2"
    using a1 c1 by (simp_all add: animationFrame_def)
  have p2: "promises ?el2 =
      [if dispatchEvent env
       then (case performAction env el of
               Inl e \<Rightarrow> Rejected e
             | Inr f \<Rightarrow> (case f ?el1 of Inl e \<Rightarrow> Rejected e | Inr _ \<Rightarrow> Fulfilled ()))
       else Fulfilled ()]"
    using p1 pa
    by (cases "dispatchEvent env")
       (simp_all add: animationFrame_single resume_pending resume_settled split: sum.splits)
  have e2: "effects ?el2 =
      DispatchEvent beforeRenderEvent #
       (if dispatchEvent env
        then (case performAction env el of
                Inl e \<Rightarrow> []
              | Inr f \<Rightarrow> [PerformAction (action el)])
        else [])"
    using p1 pa e1 ac
    by (cases "dispatchEvent env")
       (simp_all add: animationFrame_single resume_pending resume_settled split: sum.splits)
  have s2: "settled ?el2 0"
    using p2 by (simp add: settled_def split: sum.splits)
  have m: "microtasks env ?el2 = connectedCallback_continue env 0 (?el2\<lparr>awaiting := []\<rparr>)"
    using a2 s2 by (simp add: microtasks_def)
  show "effects (fst (run env [Attach, AnimationFrame, Microtasks] el)) =
     DispatchEvent beforeRenderEvent #
       (if dispatchEvent env
        then (case performAction env el of
                Inl e \<Rightarrow> [ConsoleError e]
              | Inr f \<Rightarrow> PerformAction (action el) #
                  (case f (fst (run env [Attach] el)) of Inl e \<Rightarrow> [ConsoleError e] | Inr _ \<Rightarrow> []))
        else [])
       @ [RemoveCalled]"
    using s2 p2 e2
    by (simp add: r r1 m continue_eq settled_def split: sum.splits)
  show "awaiting (fst (run env [Attach, AnimationFrame, Microtasks] el)) = []"
    by (simp add: r m)
  show "isConnected (fst (run env [Attach, AnimationFrame, Microtasks] el)) = (removeThrows env \<noteq> None)"
    using s2 c2 by (simp add: r m continue_eq settled_def)
qed

lemma continue_effects:
  "settled el p \<Longrightarrow>
   effects (connectedCallback_continue env p el) =
     effects el @ (case promises el ! p of Rejected e \<Rightarrow> [ConsoleError e] | _ \<Rightarrow> []) @ [RemoveCalled]"
  by (simp add: continue_eq)

lemma disconnect_swallows:
  "removeThrows env = Some x \<Longrightarrow> disconnect env el = el\<lparr>effects := effects el @ [RemoveCalled]\<rparr>"
  by (simp add: disconnect_eq)

subsection \<open>Canceled and successful renders\<close>




subsection \<open>Action resolution and the description\<close>

lemma tag_body_Some:
  "tag_body cs = Some b \<Longrightarrow>
   \<exists>run post. b = run @ ''>'' \<and> run \<noteq> [] \<and> CHR ''>'' \<notin> set run \<and> cs = b @ post"
proof -
  let ?P = "\<lambda>c. c \<noteq> CHR ''>''"
  assume t: "tag_body cs = Some b"
  then have run: "takeWhile ?P cs \<noteq> []" and rest: "dropWhile ?P cs \<noteq> []"
    and b: "b = takeWhile ?P cs @ ''>''"
    by (auto simp add: tag_body_def Let_def split: if_splits)
  from rest have "hd (dropWhile ?P cs) = CHR ''>''"
    using hd_dropWhile [of ?P cs] by simp
  with rest have "dropWhile ?P cs = CHR ''>'' # tl (dropWhile ?P cs)"
    by (cases "dropWhile ?P cs") simp_all
  then have "cs = (takeWhile ?P cs @ ''>'') @ tl (dropWhile ?P cs)"
    using takeWhile_dropWhile_id [of ?P cs] by simp
  moreover have "CHR ''>'' \<notin> set (takeWhile ?P cs)"
    using set_takeWhileD [of "CHR ''>''" ?P cs] by auto
  ultimately show ?thesis using run b by blast
qed

lemma match_tag_Some:
  "match_tag s = Some m \<Longrightarrow>
   \<exists>pre run post. s = pre @ m @ post \<and> m = CHR ''<'' # run @ ''>'' \<and> run \<noteq> []
      \<and> CHR ''>'' \<notin> set run"
proof (induction s)
  case Nil
  then show ?case by simp
next
  case (Cons c cs)
  show ?case
  proof (cases "c = CHR ''<'' \<and> tag_body cs \<noteq> None")
    case True
    then obtain b where b: "tag_body cs = Some b" by auto
    with True Cons.prems have m: "m = c # b" by simp
    from tag_body_Some [OF b] obtain run post
      where "b = run @ ''>''" "run \<noteq> []" "CHR ''>'' \<notin> set run" "cs = b @ post" by blast
    with m True have "c # cs = [] @ m @ post \<and> m = CHR ''<'' # run @ ''>'' \<and> run \<noteq> []
        \<and> CHR ''>'' \<notin> set run" by simp
    then show ?thesis by blast
  next
    case False
    with Cons.prems have "match_tag cs = Some m" by (auto split: if_splits option.splits)
    from Cons.IH [OF this] obtain pre run post
      where "cs = pre @ m @ post" "m = CHR ''<'' # run @ ''>''" "run \<noteq> []" "CHR ''>'' \<notin> set run"
      by blast
    then have "c # cs = (c # pre) @ m @ post \<and> m = CHR ''<'' # run @ ''>'' \<and> run \<noteq> []
        \<and> CHR ''>'' \<notin> set run" by simp
    then show ?thesis by blast
  qed
qed

lemma description_nonempty: "description el \<noteq> []"
proof (cases "match_tag (outerHTML el)")
  case None
  then show ?thesis by (simp add: description_def)
next
  case (Some m)
  from match_tag_Some [OF Some] have "m \<noteq> []" by auto
  with Some show ?thesis by (simp add: description_def)
qed

lemma resume_invokes:
  assumes a: "action el = Some a" and ne: "a \<noteq> []" and h: "StreamActions env a = Some h"
    and p: "promises el = [Pending]"
  shows "effects (resume env 0 el) = effects el @ [PerformAction (Some a)]"
    and "promises (resume env 0 el) = [case h el of Inl e \<Rightarrow> Rejected e | Inr _ \<Rightarrow> Fulfilled ()]"
proof -
  have pa: "performAction env el = Inr h" using a ne h by (simp add: performAction_def truthy_def)
  show "effects (resume env 0 el) = effects el @ [PerformAction (Some a)]"
    using pa a by (simp add: resume_pending [OF p] split: sum.splits)
  show "promises (resume env 0 el) = [case h el of Inl e \<Rightarrow> Rejected e | Inr _ \<Rightarrow> Fulfilled ()]"
    using pa by (simp add: resume_pending [OF p] split: sum.splits)
qed

subsection \<open>The template\<close>

lemma templateElement_cong:
  "firstElementChild el' = firstElementChild el \<Longrightarrow> outerHTML el' = outerHTML el \<Longrightarrow>
   templateElement el' = templateElement el"
  by (simp add: templateElement_def raise_def description_def split: option.splits node.splits)

lemma templateElement_invalid:
  "\<forall>c. firstElementChild el \<noteq> Some (HTMLTemplateElement c) \<Longrightarrow>
   templateElement el
     = Inl (Error (description el @ '': first child element must be a <template> element''))"
  by (auto simp add: templateElement_def raise_def split: option.splits node.splits)

lemma render_frame_promises:
  assumes f: "fresh el" and d: "dispatchEvent env" and a: "action el = Some a" and ne: "a \<noteq> []"
    and h: "StreamActions env a = Some h"
  shows "promises (fst (run env [Render, AnimationFrame] el))
     = [case h (snd (render env el)) of Inl e \<Rightarrow> Rejected e | Inr _ \<Rightarrow> Fulfilled ()]"
proof -
  let ?el1 = "snd (render env el)"
  have p1: "promises ?el1 = [Pending]" using d by (simp add: render_fresh [OF f])
  have a1: "action ?el1 = Some a"
    using a action_cong [of ?el1 el] by (simp add: render_fresh [OF f])
  from resume_invokes(2) [OF a1 ne h p1]
  show ?thesis using p1 by (simp add: run_def split_beta animationFrame_single)
qed

subsection \<open>Evaluating the examples\<close>

lemmas stream_eval =
  run_def fresh_def new_stream_def append_stream_def no_action_stream_def bogus_stream_def
  empty_action_stream_def no_template_stream_def no_template_remove_stream_def
  example_env_def canceling_env_def failing_remove_env_def reads_template_def
  render_def connectedCallback_def animationFrame_def resume_def settle_def microtasks_def
  connectedCallback_continue_def settled_def disconnect_def remove_el_def dispatchEvent_def
  performAction_def action_def getAttribute_def truthy_def raise_def templateContent_def
  templateElement_def dispatched_def performed_def logged_def Let_def

subsection \<open>The claims about the stream element\<close>

text \<open>
  What claim C1 says does hold as long as no listener calls back into the element. Take a
  new stream element, listeners that at most cancel the event, and any sequence of
  attachments, \<^verbatim>\<open>render()\<close> calls, animation frames and microtask checkpoints, in any
  order. Then the before-render event has been dispatched exactly once if \<^verbatim>\<open>render\<close> was
  called at all and not otherwise; the action function has been invoked at most once; there
  is at most one promise; every \<^verbatim>\<open>render()\<close> call returned that same promise, and every
  suspended \<^verbatim>\<open>connectedCallback\<close> awaits it; and once that promise is settled, whatever
  happens afterwards leaves its outcome as it is.
\<close>

lemma render_idempotent_without_callbacks:
  "fresh el \<Longrightarrow>
     dispatched (fst (run env ts el)) = (if Render \<in> set ts \<or> Attach \<in> set ts then 1 else 0)
     \<and> performed (fst (run env ts el)) \<le> 1
     \<and> length (promises (fst (run env ts el))) \<le> 1
     \<and> length (snd (run env ts el)) = length (filter (\<lambda>t. t = Render) ts)
     \<and> list_all (\<lambda>p. p = 0) (snd (run env ts el))
     \<and> list_all (\<lambda>p. p = 0) (awaiting (fst (run env ts el)))
     \<and> (settled (fst (run env ts el)) 0 \<longrightarrow>
          promises (fst (run env (ts @ ts') el)) = promises (fst (run env ts el)))"
proof -
  assume f: "fresh el"
  have inv: "render_inv (fst (run env ts el))" using f by (rule run_inv)
  have c: "length (snd (run env ts el)) = length (filter (\<lambda>t. t = Render) ts)"
    by (simp add: run_def fold_exec_count)
  have r: "list_all (\<lambda>p. p = 0) (snd (run env ts el))"
    using fold_exec_returns [OF fresh_inv [OF f], of "[]" env ts] by (simp add: run_def)
  have s: "settled (fst (run env ts el)) 0 \<longrightarrow>
          promises (fst (run env (ts @ ts') el)) = promises (fst (run env ts el))"
    using fold_exec_settled_promises [OF inv, of env ts' "snd (run env ts el)"]
    by (simp add: run_append)
  show ?thesis
    using run_dispatched [OF f, of env ts] inv_performed [OF inv] inv_length [OF inv]
      inv_awaiting [OF inv] c r s
    by simp
qed

text \<open>
  Once-listeners that do not call back are listeners like those of \<open>env\<close>:
  \<open>render_listeners\<close> is then \<open>render\<close>, with their cancellations added to the
  environment's.
\<close>

lemma dispatchEvent_listeners_NoCall:
  "list_all (\<lambda>l. calls l = NoCall) ls \<Longrightarrow>
   dispatchEvent_listeners env ls el = (dispatchEvent env \<and> \<not> list_ex cancels ls, el)"
  by (induction ls) auto

lemma render_listeners_NoCall:
  assumes "list_all (\<lambda>l. calls l = NoCall) ls"
  shows "render_listeners env ls el =
     render (env\<lparr>listeners := listeners env @ map (\<lambda>l. Listener (cancels l)) ls\<rparr>) el"
proof -
  have "list_ex preventDefault (map (\<lambda>l. Listener (cancels l)) ls) = list_ex cancels ls"
    by (induction ls) simp_all
  then have "dispatchEvent (env\<lparr>listeners := listeners env @ map (\<lambda>l. Listener (cancels l)) ls\<rparr>)
      = (dispatchEvent env \<and> \<not> list_ex cancels ls)"
    by (simp add: dispatchEvent_def)
  then show ?thesis
    using dispatchEvent_listeners_NoCall [OF assms, of env]
    by (simp add: render_def Let_def split: option.splits)
qed

lemma render_listeners_Nil: "render_listeners env [] el = render env el"
  using render_listeners_NoCall [of "[]" env el] by simp

text \<open>
  One listener that calls \<^verbatim>\<open>render()\<close> is enough for a second render, whatever the
  element and the environment: the inner call finds the field unset, dispatches the event
  again and stores a promise, and the outer call then stores another one over it.
\<close>

lemma render_listeners_CallRender:
  "fresh el \<Longrightarrow>
     fst (render_listeners env [OnceListener c CallRender] el) = 1
     \<and> dispatched (snd (render_listeners env [OnceListener c CallRender] el)) = 2
     \<and> promises (snd (render_listeners env [OnceListener c CallRender] el))
         = [if dispatchEvent env then Pending else Fulfilled (),
            if dispatchEvent env \<and> \<not> c then Pending else Fulfilled ()]
     \<and> renderPromise (snd (render_listeners env [OnceListener c CallRender] el)) = Some 1"
  by (simp add: fresh_def dispatched_def Let_def)

text \<open>
  Claim C1 fails on the code. The element is
  \<^verbatim>\<open><turbo-stream action="append" target="messages"><template>Hi</template></turbo-stream>\<close>
  with one listener of the before-render event, registered with \<^verbatim>\<open>{ once: true }\<close>, that
  calls \<^verbatim>\<open>render()\<close> on the element (or inserts it into the document again). One call of
  \<^verbatim>\<open>render()\<close> from outside, which with the listener's makes two, dispatches the event
  twice and leaves two pending promises, the field referring to the second; the outer call
  returns the second, the listener's call got the first. At the next animation frame both
  continue and the action function is invoked twice. The claim has one dispatch and at most
  one invocation.
\<close>

theorem render_twice_when_listener_calls_render:
  "fresh append_stream
   \<and> dispatchEvent example_env
   \<and> fst (render_listeners example_env [OnceListener False CallRender] append_stream) = 1
   \<and> dispatched (snd (render_listeners example_env [OnceListener False CallRender] append_stream)) = 2
   \<and> promises (snd (render_listeners example_env [OnceListener False CallRender] append_stream))
       = [Pending, Pending]
   \<and> renderPromise (snd (render_listeners example_env [OnceListener False CallRender] append_stream))
       = Some 1
   \<and> effects (animationFrame example_env
        (snd (render_listeners example_env [OnceListener False CallRender] append_stream)))
       = [DispatchEvent beforeRenderEvent, DispatchEvent beforeRenderEvent,
          PerformAction (Some ''append''), PerformAction (Some ''append'')]
   \<and> performed (animationFrame example_env
        (snd (render_listeners example_env [OnceListener False CallRender] append_stream))) = 2
   \<and> dispatched (snd (render_listeners example_env [OnceListener False Reinsert] append_stream)) = 2
   \<and> performed (animationFrame example_env
        (snd (render_listeners example_env [OnceListener False Reinsert] append_stream))) = 2"
  by (simp add: stream_eval)



text \<open>
  Claim C4. One attachment of a new stream element, followed by a frame and a microtask
  checkpoint: whatever the outcome, the last thing the element does is to call
  \<^verbatim>\<open>remove()\<close>. Before that it has dispatched the event and, unless the event was canceled,
  either failed to resolve the action and logged that error, or invoked the action
  function and logged the error the function threw, if it threw. No \<^verbatim>\<open>connectedCallback\<close>
  stays suspended, and the element is out of the document unless \<^verbatim>\<open>remove()\<close> threw.
  The same holds for every sequence of steps: after one that contains an attachment and has
  settled the promise, the next checkpoint leaves nothing suspended and, \<^verbatim>\<open>remove()\<close> being
  the DOM's, the element out of the document. The continuation of \<^verbatim>\<open>connectedCallback\<close>
  logs exactly the rejection of the promise it awaited (nothing for a fulfilled one) and
  then calls \<^verbatim>\<open>remove()\<close>; when \<^verbatim>\<open>remove()\<close> throws, \<^verbatim>\<open>disconnect\<close> returns normally
  and the element is as before the call: what was thrown is not logged and is not kept
  anywhere.
\<close>

theorem removal_on_every_outcome:
  "fresh el \<Longrightarrow>
     effects (fst (run env [Attach, AnimationFrame, Microtasks] el)) =
       DispatchEvent beforeRenderEvent #
         (if dispatchEvent env
          then (case performAction env el of
                  Inl e \<Rightarrow> [ConsoleError e]
                | Inr f \<Rightarrow> PerformAction (action el) #
                    (case f (fst (run env [Attach] el)) of Inl e \<Rightarrow> [ConsoleError e] | Inr _ \<Rightarrow> []))
          else [])
         @ [RemoveCalled]
     \<and> awaiting (fst (run env [Attach, AnimationFrame, Microtasks] el)) = []
     \<and> isConnected (fst (run env [Attach, AnimationFrame, Microtasks] el)) = (removeThrows env \<noteq> None)
     \<and> (\<forall>ts. Attach \<in> set ts \<and> settled (fst (run env ts el)) 0 \<longrightarrow>
           awaiting (fst (run env (ts @ [Microtasks]) el)) = []
           \<and> (removeThrows env = None \<longrightarrow> \<not> isConnected (fst (run env (ts @ [Microtasks]) el))))
     \<and> (\<forall>el' p. settled el' p \<longrightarrow>
           effects (connectedCallback_continue env p el') =
             effects el' @ (case promises el' ! p of Rejected e \<Rightarrow> [ConsoleError e] | _ \<Rightarrow> [])
               @ [RemoveCalled])
     \<and> (\<forall>el' x. removeThrows env = Some x \<longrightarrow>
           disconnect env el' = el'\<lparr>effects := effects el' @ [RemoveCalled]\<rparr>)"
proof -
  assume f: "fresh el"
  note p = pipeline_effects [OF f, of env]
  have g: "\<forall>ts. Attach \<in> set ts \<and> settled (fst (run env ts el)) 0 \<longrightarrow>
           awaiting (fst (run env (ts @ [Microtasks]) el)) = []
           \<and> (removeThrows env = None \<longrightarrow> \<not> isConnected (fst (run env (ts @ [Microtasks]) el)))"
    using run_then_microtasks [OF f] by blast
  show ?thesis
    using p(1) p(2) p(3) g continue_effects disconnect_swallows by blast
qed

theorem removal_on_every_outcome_witness:
  "fresh append_stream \<and> fresh no_template_stream \<and> fresh bogus_stream
   \<and> effects (fst (run example_env [Attach, AnimationFrame, Microtasks] append_stream))
       = [DispatchEvent beforeRenderEvent, PerformAction (Some ''append''), RemoveCalled]
   \<and> \<not> isConnected (fst (run example_env [Attach, AnimationFrame, Microtasks] append_stream))
   \<and> effects (fst (run example_env [Attach, AnimationFrame, Microtasks] no_template_stream))
       = [DispatchEvent beforeRenderEvent, PerformAction (Some ''append''),
          ConsoleError (Error (description no_template_stream
            @ '': first child element must be a <template> element'')),
          RemoveCalled]
   \<and> \<not> isConnected (fst (run example_env [Attach, AnimationFrame, Microtasks] no_template_stream))
   \<and> effects (fst (run canceling_env [Attach, AnimationFrame, Microtasks] append_stream))
       = [DispatchEvent beforeRenderEvent, RemoveCalled]
   \<and> \<not> isConnected (fst (run canceling_env [Attach, AnimationFrame, Microtasks] append_stream))
   \<and> effects (fst (run failing_remove_env [Attach, AnimationFrame, Microtasks] bogus_stream))
       = [DispatchEvent beforeRenderEvent,
          ConsoleError (Error (description bogus_stream @ '': unknown action'')),
          RemoveCalled]
   \<and> isConnected (fst (run failing_remove_env [Attach, AnimationFrame, Microtasks] bogus_stream))"
proof -
  have f1: "fresh append_stream" and f2: "fresh no_template_stream" and f3: "fresh bogus_stream"
    by (simp_all add: stream_eval)
  note a = removal_on_every_outcome [OF f1, of example_env]
  note b = removal_on_every_outcome [OF f2, of example_env]
  note c = removal_on_every_outcome [OF f1, of canceling_env]
  note d = removal_on_every_outcome [OF f3, of failing_remove_env]
  have a1: "effects (fst (run example_env [Attach, AnimationFrame, Microtasks] append_stream))
       = [DispatchEvent beforeRenderEvent, PerformAction (Some ''append''), RemoveCalled]"
    using a [THEN conjunct1] by (simp add: stream_eval description_def)
  have a2: "\<not> isConnected (fst (run example_env [Attach, AnimationFrame, Microtasks] append_stream))"
    using a [THEN conjunct2, THEN conjunct2, THEN conjunct1] by (simp add: example_env_def)
  have b1: "effects (fst (run example_env [Attach, AnimationFrame, Microtasks] no_template_stream))
       = [DispatchEvent beforeRenderEvent, PerformAction (Some ''append''),
          ConsoleError (Error (description no_template_stream
            @ '': first child element must be a <template> element'')),
          RemoveCalled]"
    using b [THEN conjunct1] by (simp add: stream_eval description_def)
  have b2: "\<not> isConnected (fst (run example_env [Attach, AnimationFrame, Microtasks] no_template_stream))"
    using b [THEN conjunct2, THEN conjunct2, THEN conjunct1] by (simp add: example_env_def)
  have c1: "effects (fst (run canceling_env [Attach, AnimationFrame, Microtasks] append_stream))
       = [DispatchEvent beforeRenderEvent, RemoveCalled]"
    using c [THEN conjunct1] by (simp add: stream_eval description_def)
  have c2: "\<not> isConnected (fst (run canceling_env [Attach, AnimationFrame, Microtasks] append_stream))"
    using c [THEN conjunct2, THEN conjunct2, THEN conjunct1]
    by (simp add: canceling_env_def example_env_def)
  have d1: "effects (fst (run failing_remove_env [Attach, AnimationFrame, Microtasks] bogus_stream))
       = [DispatchEvent beforeRenderEvent,
          ConsoleError (Error (description bogus_stream @ '': unknown action'')),
          RemoveCalled]"
    using d [THEN conjunct1] by (simp add: stream_eval description_def)
  have d2: "isConnected (fst (run failing_remove_env [Attach, AnimationFrame, Microtasks] bogus_stream))"
    using d [THEN conjunct2, THEN conjunct2, THEN conjunct1]
    by (simp add: failing_remove_env_def example_env_def)
  from f1 f2 f3 a1 a2 b1 b2 c1 c2 d1 d2 show ?thesis by blast
qed

text \<open>
  Claim C5 as stated fails for an action attribute that is present but empty: the empty
  string is not a name of the registry, yet the error is the one for a missing attribute
  and not \<^verbatim>\<open>unknown action\<close>, because the getter tests the attribute's value for
  truthiness.
\<close>

theorem empty_action_counterexample:
  "action empty_action_stream = Some []
   \<and> StreamActions example_env [] = None
   \<and> performAction example_env empty_action_stream
       \<noteq> Inl (Error (description empty_action_stream @ '': unknown action''))
   \<and> performAction example_env empty_action_stream
       = Inl (Error (description empty_action_stream @ '': action attribute is missing''))"
  by (simp add: empty_action_stream_def new_stream_def example_env_def action_def
      getAttribute_def performAction_def truthy_def raise_def)

text \<open>
  Claim C5, as amended. When the action attribute is absent or empty, reading
  \<^verbatim>\<open>performAction\<close> throws an error whose message is the description of the element
  followed by \<^verbatim>\<open>: action attribute is missing\<close>. When the attribute is non-empty and the
  registry has no function under that name, the message is the description followed by
  \<^verbatim>\<open>: unknown action\<close>, which is a different message. Otherwise the getter returns the
  registered function, and the frame continuation of a pending render invokes it on the
  element and settles the promise with its outcome. The description is never empty: it is
  \<^verbatim>\<open><turbo-stream>\<close> when the serialisation of the element has no tag, and otherwise the
  first tag in it, a part of the serialisation that starts with \<^verbatim>\<open><\<close>, ends with the
  first \<^verbatim>\<open>>\<close> after it and has something in between.
\<close>

theorem action_resolution:
  "(\<not> truthy (action el) \<longrightarrow>
      performAction env el = Inl (Error (description el @ '': action attribute is missing'')))
   \<and> (\<forall>a. action el = Some a \<and> a \<noteq> [] \<and> StreamActions env a = None \<longrightarrow>
        performAction env el = Inl (Error (description el @ '': unknown action'')))
   \<and> (\<forall>a h. action el = Some a \<and> a \<noteq> [] \<and> StreamActions env a = Some h \<longrightarrow>
        performAction env el = Inr h
        \<and> (promises el = [Pending] \<longrightarrow>
             effects (resume env 0 el) = effects el @ [PerformAction (Some a)]
             \<and> promises (resume env 0 el)
                 = [case h el of Inl e \<Rightarrow> Rejected e | Inr _ \<Rightarrow> Fulfilled ()]))
   \<and> description el @ '': action attribute is missing'' \<noteq> description el @ '': unknown action''
   \<and> description el \<noteq> []
   \<and> (match_tag (outerHTML el) = None \<longrightarrow> description el = ''<turbo-stream>'')
   \<and> (\<forall>m. match_tag (outerHTML el) = Some m \<longrightarrow>
        description el = m
        \<and> (\<exists>pre run post. outerHTML el = pre @ m @ post \<and> m = CHR ''<'' # run @ ''>''
              \<and> run \<noteq> [] \<and> CHR ''>'' \<notin> set run))"
proof -
  have 1: "\<not> truthy (action el) \<longrightarrow>
      performAction env el = Inl (Error (description el @ '': action attribute is missing''))"
    by (simp add: performAction_def raise_def)
  have 2: "\<forall>a. action el = Some a \<and> a \<noteq> [] \<and> StreamActions env a = None \<longrightarrow>
        performAction env el = Inl (Error (description el @ '': unknown action''))"
    by (simp add: performAction_def raise_def truthy_def)
  have 3: "\<forall>a h. action el = Some a \<and> a \<noteq> [] \<and> StreamActions env a = Some h \<longrightarrow>
        performAction env el = Inr h
        \<and> (promises el = [Pending] \<longrightarrow>
             effects (resume env 0 el) = effects el @ [PerformAction (Some a)]
             \<and> promises (resume env 0 el)
                 = [case h el of Inl e \<Rightarrow> Rejected e | Inr _ \<Rightarrow> Fulfilled ()])"
    using resume_invokes [of el _ env] by (simp add: performAction_def truthy_def)
  have 4: "description el @ '': action attribute is missing'' \<noteq> description el @ '': unknown action''"
    by simp
  have 5: "match_tag (outerHTML el) = None \<longrightarrow> description el = ''<turbo-stream>''"
    by (simp add: description_def)
  have 6: "\<forall>m. match_tag (outerHTML el) = Some m \<longrightarrow>
        description el = m
        \<and> (\<exists>pre run post. outerHTML el = pre @ m @ post \<and> m = CHR ''<'' # run @ ''>''
              \<and> run \<noteq> [] \<and> CHR ''>'' \<notin> set run)"
    using match_tag_Some [of "outerHTML el"] by (simp add: description_def)
  show ?thesis using 1 2 3 4 5 6 description_nonempty [of el] by blast
qed

theorem action_resolution_witness:
  "performAction example_env no_action_stream
     = Inl (Error (description no_action_stream @ '': action attribute is missing''))
   \<and> performAction example_env bogus_stream
     = Inl (Error (description bogus_stream @ '': unknown action''))
   \<and> performAction example_env append_stream = Inr reads_template
   \<and> description bogus_stream
     = ''<turbo-stream action='' @ quoted ''bogus'' @ '' target='' @ quoted ''messages'' @ ''>''"
proof -
  note a = action_resolution [of no_action_stream example_env]
  note b = action_resolution [of bogus_stream example_env]
  note c = action_resolution [of append_stream example_env]
  have "\<not> truthy (action no_action_stream)" by (simp add: stream_eval)
  with a have 1: "performAction example_env no_action_stream
     = Inl (Error (description no_action_stream @ '': action attribute is missing''))" by blast
  have "action bogus_stream = Some ''bogus'' \<and> ''bogus'' \<noteq> []
      \<and> StreamActions example_env ''bogus'' = None" by (simp add: stream_eval)
  with b have 2: "performAction example_env bogus_stream
     = Inl (Error (description bogus_stream @ '': unknown action''))" by blast
  have "action append_stream = Some ''append'' \<and> ''append'' \<noteq> []
      \<and> StreamActions example_env ''append'' = Some reads_template" by (simp add: stream_eval)
  with c have 3: "performAction example_env append_stream = Inr reads_template" by blast
  have "match_tag (outerHTML bogus_stream)
      = Some (''<turbo-stream action='' @ quoted ''bogus'' @ '' target='' @ quoted ''messages'' @ ''>'')"
    by (simp add: bogus_stream_def new_stream_def quoted_def tag_body_def)
  with b have 4: "description bogus_stream
     = ''<turbo-stream action='' @ quoted ''bogus'' @ '' target='' @ quoted ''messages'' @ ''>''"
    by blast
  from 1 2 3 4 show ?thesis by blast
qed

text \<open>
  Claim C8. Take a new stream element whose first element child is not a template (or that
  has no element child). Reading \<^verbatim>\<open>templateElement\<close> or \<^verbatim>\<open>templateContent\<close> throws an
  error whose message is the description of the element followed by
  \<^verbatim>\<open>: first child element must be a <template> element\<close>. \<^verbatim>\<open>render\<close> nevertheless
  dispatches the before-render event, and its promise is pending (or fulfilled, when the
  event was canceled) after the dispatch, not rejected. When the frame comes, the outcome of
  the render is the outcome of the registered action function: a function that never
  throws fulfils the promise, and a function that throws whatever reading the template
  content throws rejects it with the error above.
\<close>

theorem invalid_template_fails_on_read:
  "fresh el \<Longrightarrow> \<forall>c. firstElementChild el \<noteq> Some (HTMLTemplateElement c) \<Longrightarrow>
     templateElement el
       = Inl (Error (description el @ '': first child element must be a <template> element''))
     \<and> templateContent el
       = Inl (Error (description el @ '': first child element must be a <template> element''))
     \<and> effects (snd (render env el)) = [DispatchEvent beforeRenderEvent]
     \<and> promises (snd (render env el)) = [if dispatchEvent env then Pending else Fulfilled ()]
     \<and> (\<forall>a h. dispatchEvent env \<and> action el = Some a \<and> a \<noteq> [] \<and> StreamActions env a = Some h \<longrightarrow>
          promises (fst (run env [Render, AnimationFrame] el))
            = [case h (snd (render env el)) of Inl e \<Rightarrow> Rejected e | Inr _ \<Rightarrow> Fulfilled ()]
          \<and> ((\<forall>x. h x = Inr ()) \<longrightarrow>
               promises (fst (run env [Render, AnimationFrame] el)) = [Fulfilled ()])
          \<and> ((\<forall>x. case templateContent x of Inl e \<Rightarrow> h x = Inl e | Inr _ \<Rightarrow> True) \<longrightarrow>
               promises (fst (run env [Render, AnimationFrame] el))
                 = [Rejected (Error (description el
                      @ '': first child element must be a <template> element''))]))"
proof -
  assume f: "fresh el" and nt: "\<forall>c. firstElementChild el \<noteq> Some (HTMLTemplateElement c)"
  let ?e = "Error (description el @ '': first child element must be a <template> element'')"
  have te: "templateElement el = Inl ?e" using nt by (rule templateElement_invalid)
  then have tc: "templateContent el = Inl ?e" by (simp add: templateContent_def)
  have "templateElement (snd (render env el)) = templateElement el"
    by (rule templateElement_cong) (simp_all add: render_fresh [OF f])
  with te have tc1: "templateContent (snd (render env el)) = Inl ?e"
    by (simp add: templateContent_def)
  have ef: "effects (snd (render env el)) = [DispatchEvent beforeRenderEvent]"
    and pr: "promises (snd (render env el)) = [if dispatchEvent env then Pending else Fulfilled ()]"
    by (simp_all add: render_fresh [OF f])
  have hh: "\<forall>a h. dispatchEvent env \<and> action el = Some a \<and> a \<noteq> [] \<and> StreamActions env a = Some h \<longrightarrow>
          promises (fst (run env [Render, AnimationFrame] el))
            = [case h (snd (render env el)) of Inl e \<Rightarrow> Rejected e | Inr _ \<Rightarrow> Fulfilled ()]
          \<and> ((\<forall>x. h x = Inr ()) \<longrightarrow>
               promises (fst (run env [Render, AnimationFrame] el)) = [Fulfilled ()])
          \<and> ((\<forall>x. case templateContent x of Inl e \<Rightarrow> h x = Inl e | Inr _ \<Rightarrow> True) \<longrightarrow>
               promises (fst (run env [Render, AnimationFrame] el)) = [Rejected ?e])"
  proof (intro allI impI)
    fix a h
    assume as: "dispatchEvent env \<and> action el = Some a \<and> a \<noteq> [] \<and> StreamActions env a = Some h"
    then have p: "promises (fst (run env [Render, AnimationFrame] el))
            = [case h (snd (render env el)) of Inl e \<Rightarrow> Rejected e | Inr _ \<Rightarrow> Fulfilled ()]"
      using render_frame_promises [OF f, of env a h] by simp
    have ok: "(\<forall>x. h x = Inr ()) \<longrightarrow>
               promises (fst (run env [Render, AnimationFrame] el)) = [Fulfilled ()]"
      using p by simp
    have bad: "(\<forall>x. case templateContent x of Inl e \<Rightarrow> h x = Inl e | Inr _ \<Rightarrow> True) \<longrightarrow>
               promises (fst (run env [Render, AnimationFrame] el)) = [Rejected ?e]"
    proof
      assume "\<forall>x. case templateContent x of Inl e \<Rightarrow> h x = Inl e | Inr _ \<Rightarrow> True"
      then have "case templateContent (snd (render env el)) of
                   Inl e \<Rightarrow> h (snd (render env el)) = Inl e | Inr _ \<Rightarrow> True" by blast
      with tc1 have "h (snd (render env el)) = Inl ?e" by simp
      with p show "promises (fst (run env [Render, AnimationFrame] el)) = [Rejected ?e]" by simp
    qed
    from p ok bad show "promises (fst (run env [Render, AnimationFrame] el))
            = [case h (snd (render env el)) of Inl e \<Rightarrow> Rejected e | Inr _ \<Rightarrow> Fulfilled ()]
          \<and> ((\<forall>x. h x = Inr ()) \<longrightarrow>
               promises (fst (run env [Render, AnimationFrame] el)) = [Fulfilled ()])
          \<and> ((\<forall>x. case templateContent x of Inl e \<Rightarrow> h x = Inl e | Inr _ \<Rightarrow> True) \<longrightarrow>
               promises (fst (run env [Render, AnimationFrame] el)) = [Rejected ?e])" by blast
  qed
  show ?thesis using te tc ef pr hh by blast
qed

theorem invalid_template_fails_on_read_witness:
  "fresh no_template_stream \<and> fresh no_template_remove_stream
   \<and> effects (snd (render example_env no_template_stream)) = [DispatchEvent beforeRenderEvent]
   \<and> promises (snd (render example_env no_template_stream)) = [Pending]
   \<and> promises (fst (run example_env [Render, AnimationFrame] no_template_stream))
       = [Rejected (Error (description no_template_stream
            @ '': first child element must be a <template> element''))]
   \<and> promises (fst (run example_env [Render, AnimationFrame] no_template_remove_stream))
       = [Fulfilled ()]"
proof -
  have f1: "fresh no_template_stream" and f2: "fresh no_template_remove_stream"
    by (simp_all add: stream_eval)
  have n1: "\<forall>c. firstElementChild no_template_stream \<noteq> Some (HTMLTemplateElement c)"
    and n2: "\<forall>c. firstElementChild no_template_remove_stream \<noteq> Some (HTMLTemplateElement c)"
    by (simp_all add: stream_eval)
  note a = invalid_template_fails_on_read [OF f1 n1, of example_env]
  note b = invalid_template_fails_on_read [OF f2 n2, of example_env]
  have d: "dispatchEvent example_env" by (simp add: stream_eval)
  from a have 1: "effects (snd (render example_env no_template_stream))
      = [DispatchEvent beforeRenderEvent]" by blast
  from a d have 2: "promises (snd (render example_env no_template_stream)) = [Pending]" by simp
  have h1: "dispatchEvent example_env \<and> action no_template_stream = Some ''append''
      \<and> ''append'' \<noteq> [] \<and> StreamActions example_env ''append'' = Some reads_template"
    by (simp add: stream_eval)
  have r: "\<forall>x. case templateContent x of Inl e \<Rightarrow> reads_template x = Inl e | Inr _ \<Rightarrow> True"
    by (simp add: reads_template_def split: sum.splits)
  from a h1 r have 3: "promises (fst (run example_env [Render, AnimationFrame] no_template_stream))
       = [Rejected (Error (description no_template_stream
            @ '': first child element must be a <template> element''))]" by blast
  have h2: "dispatchEvent example_env \<and> action no_template_remove_stream = Some ''remove''
      \<and> ''remove'' \<noteq> [] \<and> StreamActions example_env ''remove'' = Some (\<lambda>el. Inr ())"
    by (simp add: stream_eval)
  from b h2 have 4: "promises (fst (run example_env [Render, AnimationFrame] no_template_remove_stream))
       = [Fulfilled ()]" by blast
  from f1 f2 1 2 3 4 show ?thesis by blast
qed



section \<open>Properties of the frame element\<close>

subsection \<open>Attribute operations\<close>

lemma attributeChangedCallback_attributes:
  "attributes (frame (attributeChangedCallback w)) = attributes (frame w)"
  by (simp add: attributeChangedCallback_def visit_def Let_def)

lemma setAttribute_attributes:
  "attributes (frame (setAttribute name v w)) = (attributes (frame w))(name \<mapsto> v)"
  by (simp add: setAttribute_def Let_def attributeChangedCallback_attributes)

lemma removeAttribute_attributes:
  "attributes (frame (removeAttribute name w)) = (attributes (frame w))(name := None)"
  by (auto simp add: removeAttribute_def Let_def attributeChangedCallback_attributes)

lemma setAttribute_unobserved:
  "name \<notin> set observedAttributes \<Longrightarrow>
   setAttribute name v w = w\<lparr>frame := (frame w)\<lparr>attributes := (attributes (frame w))(name \<mapsto> v)\<rparr>\<rparr>"
  by (simp add: setAttribute_def Let_def)

lemma removeAttribute_unobserved:
  "name \<notin> set observedAttributes \<Longrightarrow>
   removeAttribute name w = w\<lparr>frame := (frame w)\<lparr>attributes := (attributes (frame w))(name := None)\<rparr>\<rparr>"
proof (cases "attributes (frame w) name = None")
  case True
  then have "(attributes (frame w))(name := None) = attributes (frame w)"
    by (metis fun_upd_idem)
  with True show ?thesis by (simp add: removeAttribute_def)
next
  case False
  assume "name \<notin> set observedAttributes"
  with False show ?thesis by (auto simp add: removeAttribute_def Let_def)
qed

lemma set_disabled_eq:
  "set_disabled v w =
     w\<lparr>frame := (frame w)\<lparr>attributes :=
          (attributes (frame w))(''disabled'' := (if v then Some [] else None))\<rparr>\<rparr>"
  by (simp add: set_disabled_def setAttribute_unobserved removeAttribute_unobserved
      observedAttributes_def)

lemma set_autoscroll_eq:
  "set_autoscroll v w =
     w\<lparr>frame := (frame w)\<lparr>attributes :=
          (attributes (frame w))(''autoscroll'' := (if v then Some [] else None))\<rparr>\<rparr>"
  by (simp add: set_autoscroll_def setAttribute_unobserved removeAttribute_unobserved
      observedAttributes_def)

lemma visits_append: "visits (xs @ ys) = visits xs @ visits ys"
  by (induction xs rule: visits.induct) simp_all

lemma isActive_attributes:
  "isActive (w\<lparr>frame := (frame w)\<lparr>attributes := m\<rparr>\<rparr>) = isActive w"
  by (simp add: isActive_def isPreview_def split: option.splits)

lemma src_attributes:
  "src (w\<lparr>frame := (frame w)\<lparr>attributes := m\<rparr>\<rparr>) = m ''src''"
  by (simp add: src_def getAttribute_def)

lemma callback_calls:
  "controller_calls (attributeChangedCallback w) =
     controller_calls w @
       (if truthy (src w) \<and> isActive w then [Visit (case src w of Some u \<Rightarrow> u | None \<Rightarrow> [])] else [])"
  by (simp add: attributeChangedCallback_def visit_def Let_def)

lemma callback_closed: "\<not> (truthy (src w) \<and> isActive w) \<Longrightarrow> attributeChangedCallback w = w"
  by (auto simp add: attributeChangedCallback_def)

lemma callback_promises:
  "length (controller_promises (attributeChangedCallback w)) =
     length (controller_promises w) + (if truthy (src w) \<and> isActive w then 1 else 0)"
  by (simp add: attributeChangedCallback_def visit_def Let_def)

lemma callback_loaded:
  "loaded_own (frame (attributeChangedCallback w)) =
     (if truthy (src w) \<and> isActive w then Some (length (controller_promises w))
      else loaded_own (frame w))"
  by (simp add: attributeChangedCallback_def visit_def Let_def)

lemma exec_visits:
  "visits (controller_calls (frame_exec t w)) = visits (controller_calls w) @ spec_forwarded t w"
proof (cases t)
  case (SetAttribute name v)
  then show ?thesis
    by (simp add: setAttribute_def Let_def spec_forwarded_def callback_calls visits_append
        isActive_attributes src_attributes truthy_def observedAttributes_def)
next
  case (RemoveAttribute name)
  then show ?thesis
    by (simp add: removeAttribute_def Let_def spec_forwarded_def callback_calls visits_append
        isActive_attributes src_attributes truthy_def observedAttributes_def)
next
  case (AssignSrc v)
  then show ?thesis
    by (cases v)
       (simp_all add: set_src_def setAttribute_def removeAttribute_def Let_def spec_forwarded_def
          callback_calls visits_append isActive_attributes src_attributes truthy_def
          observedAttributes_def)
qed (simp_all add: connect_def disconnect_controller_def set_disabled_eq set_autoscroll_eq
      mark_preview_def settle_controller_def spec_forwarded_def visits_append
      split: option.splits)

lemma run_visits:
  "visits (controller_calls (frame_run ts w)) = visits (controller_calls w) @ spec_visits ts w"
  unfolding frame_run_def
  by (induction ts arbitrary: w) (simp_all add: exec_visits)

lemma spec_forwarded_length: "length (spec_forwarded t w) \<le> 1"
  by (simp add: spec_forwarded_def split: option.splits)

lemma exec_promises:
  "length (controller_promises (frame_exec t w)) =
     length (controller_promises w) + length (spec_forwarded t w)"
proof (cases t)
  case (SetAttribute name v)
  then show ?thesis
    by (simp add: setAttribute_def Let_def spec_forwarded_def callback_promises
        isActive_attributes src_attributes truthy_def observedAttributes_def)
next
  case (RemoveAttribute name)
  then show ?thesis
    by (simp add: removeAttribute_def Let_def spec_forwarded_def callback_promises
        isActive_attributes src_attributes truthy_def observedAttributes_def)
next
  case (AssignSrc v)
  then show ?thesis
    by (cases v)
       (simp_all add: set_src_def setAttribute_def removeAttribute_def Let_def spec_forwarded_def
          callback_promises isActive_attributes src_attributes truthy_def
          observedAttributes_def)
qed (simp_all add: connect_def disconnect_controller_def set_disabled_eq set_autoscroll_eq
      mark_preview_def settle_controller_def spec_forwarded_def
      split: option.splits)

lemma exec_loaded:
  "loaded_own (frame (frame_exec t w)) =
     (if spec_forwarded t w = [] then loaded_own (frame w)
      else Some (length (controller_promises w)))"
proof (cases t)
  case (SetAttribute name v)
  then show ?thesis
    by (simp add: setAttribute_def Let_def spec_forwarded_def callback_loaded
        isActive_attributes src_attributes truthy_def observedAttributes_def)
next
  case (RemoveAttribute name)
  then show ?thesis
    by (simp add: removeAttribute_def Let_def spec_forwarded_def callback_loaded
        isActive_attributes src_attributes truthy_def observedAttributes_def)
next
  case (AssignSrc v)
  then show ?thesis
    by (cases v)
       (simp_all add: set_src_def setAttribute_def removeAttribute_def Let_def spec_forwarded_def
          callback_loaded isActive_attributes src_attributes truthy_def
          observedAttributes_def)
qed (simp_all add: connect_def disconnect_controller_def set_disabled_eq set_autoscroll_eq
      mark_preview_def settle_controller_def spec_forwarded_def
      split: option.splits)

lemma run_promises:
  "length (controller_promises (frame_run ts w)) =
     length (controller_promises w) + length (spec_visits ts w)"
  unfolding frame_run_def
  by (induction ts arbitrary: w) (simp_all add: exec_promises)

lemma run_loaded:
  "loaded_own (frame (frame_run ts w)) =
     (if spec_visits ts w = [] then loaded_own (frame w)
      else Some (length (controller_promises w) + length (spec_visits ts w) - 1))"
  unfolding frame_run_def
proof (induction ts arbitrary: w)
  case Nil
  show ?case by simp
next
  case (Cons t ts)
  have len: "length (spec_forwarded t w) = (if spec_forwarded t w = [] then 0 else 1)"
    using spec_forwarded_length [of t w] by (cases "spec_forwarded t w") simp_all
  show ?case
    using Cons [of "frame_exec t w"] len
    by (auto simp add: exec_loaded exec_promises)
qed

lemmas frame_eval =
  live_world_def preview_world_def with_src_def mark_preview_def isActive_def isPreview_def
  src_def getAttribute_def hasAttribute_def truthy_def attributeChangedCallback_def visit_def
  setAttribute_def removeAttribute_def set_src_def set_disabled_def set_autoscroll_def
  observedAttributes_def settle_controller_def spec_forwarded_def frame_run_def loaded_def
  disabled_def autoscroll_def Let_def

subsection \<open>The claims about the frame element\<close>

text \<open>
  Claim C2. When \<^verbatim>\<open>attributeChangedCallback\<close> runs with a non-empty source on an active
  element the controller receives exactly one more call, \<^verbatim>\<open>visit\<close> of that source; when
  the source is empty or the element is not active the callback changes nothing at all, so
  nothing is kept for later. Over a single task and over any sequence of tasks, the
  \<^verbatim>\<open>visit\<close> calls the controller receives are exactly the changes of the source to a
  non-empty value made while the element was active, in order: a task that does not change
  the source (the preview marker going away, an adoption, an attachment) never causes a
  visit, so a change that was ignored is not replayed.
\<close>

theorem source_change_forwarded_iff_active:
  "(\<forall>u. src w = Some u \<and> u \<noteq> [] \<and> isActive w \<longrightarrow>
        controller_calls (attributeChangedCallback w) = controller_calls w @ [Visit u])
   \<and> (\<not> (truthy (src w) \<and> isActive w) \<longrightarrow> attributeChangedCallback w = w)
   \<and> visits (controller_calls (frame_exec t w)) = visits (controller_calls w) @ spec_forwarded t w
   \<and> visits (controller_calls (frame_run ts w)) = visits (controller_calls w) @ spec_visits ts w"
proof -
  have accepted: "\<forall>u. src w = Some u \<and> u \<noteq> [] \<and> isActive w \<longrightarrow>
        controller_calls (attributeChangedCallback w) = controller_calls w @ [Visit u]"
    by (simp add: callback_calls truthy_def)
  have ignored: "\<not> (truthy (src w) \<and> isActive w) \<longrightarrow> attributeChangedCallback w = w"
    using callback_closed [of w] by blast
  have one: "visits (controller_calls (frame_exec t w))
      = visits (controller_calls w) @ spec_forwarded t w"
    by (rule exec_visits)
  have many: "visits (controller_calls (frame_run ts w))
      = visits (controller_calls w) @ spec_visits ts w"
    by (rule run_visits)
  from accepted ignored one many show ?thesis by blast
qed

theorem source_change_forwarded_iff_active_witness:
  "isActive (with_src ''/a'' live_world)
   \<and> controller_calls (attributeChangedCallback (with_src ''/a'' live_world)) = [Visit ''/a'']
   \<and> \<not> isActive (with_src ''/a'' preview_world)
   \<and> attributeChangedCallback (with_src ''/a'' preview_world) = with_src ''/a'' preview_world
   \<and> visits (controller_calls (frame_exec (MarkPreview 0 False) (with_src ''/a'' preview_world))) = []
   \<and> visits (controller_calls (frame_run
        [Adopt 1, AssignSrc (Some ''/b''), Adopt 0, AssignSrc (Some []),
         MarkPreview 0 True, AssignSrc (Some ''/a''), MarkPreview 0 False, AssignSrc (Some ''/a'')]
        live_world)) = [''/a'']"
  using source_change_forwarded_iff_active [of "with_src ''/a'' live_world"]
    source_change_forwarded_iff_active [of "with_src ''/a'' preview_world" "MarkPreview 0 False"]
    source_change_forwarded_iff_active [of live_world _
      "[Adopt 1, AssignSrc (Some ''/b''), Adopt 0, AssignSrc (Some []),
        MarkPreview 0 True, AssignSrc (Some ''/a''), MarkPreview 0 False, AssignSrc (Some ''/a'')]"]
  by (simp add: frame_eval)

text \<open>
  Claim C6. For each of \<open>disabled\<close> and \<open>autoscroll\<close>: reading the property is true
  exactly when the attribute of that name is present; assigning true leaves the attribute
  present with the empty value, assigning false leaves it absent; a read after an
  assignment gives the value assigned; and an assignment changes the attribute and nothing
  else of the element or its surroundings (in particular the controller is not called).
\<close>

theorem boolean_properties_mirror_attribute_presence:
  "disabled w = (attributes (frame w) ''disabled'' \<noteq> None)
   \<and> attributes (frame (set_disabled True w)) ''disabled'' = Some []
   \<and> attributes (frame (set_disabled False w)) ''disabled'' = None
   \<and> disabled (set_disabled v w) = v
   \<and> set_disabled v w =
       w\<lparr>frame := (frame w)\<lparr>attributes :=
            (attributes (frame w))(''disabled'' := (if v then Some [] else None))\<rparr>\<rparr>
   \<and> autoscroll w = (attributes (frame w) ''autoscroll'' \<noteq> None)
   \<and> attributes (frame (set_autoscroll True w)) ''autoscroll'' = Some []
   \<and> attributes (frame (set_autoscroll False w)) ''autoscroll'' = None
   \<and> autoscroll (set_autoscroll v w) = v
   \<and> set_autoscroll v w =
       w\<lparr>frame := (frame w)\<lparr>attributes :=
            (attributes (frame w))(''autoscroll'' := (if v then Some [] else None))\<rparr>\<rparr>"
proof -
  have d: "disabled (set_disabled v w) = v"
    by (simp add: set_disabled_eq disabled_def hasAttribute_def)
  have a: "autoscroll (set_autoscroll v w) = v"
    by (simp add: set_autoscroll_eq autoscroll_def hasAttribute_def)
  show ?thesis
    using d a set_disabled_eq [of v w] set_autoscroll_eq [of v w]
    by (simp add: disabled_def autoscroll_def hasAttribute_def set_disabled_eq set_autoscroll_eq)
qed

theorem boolean_properties_mirror_attribute_presence_witness:
  "autoscroll (set_autoscroll True live_world)
   \<and> attributes (frame (set_autoscroll True live_world)) ''autoscroll'' = Some []
   \<and> \<not> autoscroll (set_autoscroll False (set_autoscroll True live_world))
   \<and> attributes (frame (set_autoscroll False (set_autoscroll True live_world))) ''autoscroll'' = None
   \<and> disabled (set_disabled True live_world)
   \<and> \<not> disabled (set_disabled False (set_disabled True live_world))"
proof -
  note a = boolean_properties_mirror_attribute_presence [of live_world True]
  note b = boolean_properties_mirror_attribute_presence [of "set_autoscroll True live_world" False]
  note c = boolean_properties_mirror_attribute_presence [of "set_disabled True live_world" False]
  have 1: "autoscroll (set_autoscroll True live_world) = True" using a by blast
  have 2: "attributes (frame (set_autoscroll True live_world)) ''autoscroll'' = Some []"
    using a by blast
  have 3: "autoscroll (set_autoscroll False (set_autoscroll True live_world)) = False"
    using b by blast
  have 4: "attributes (frame (set_autoscroll False (set_autoscroll True live_world))) ''autoscroll'' = None"
    using b by blast
  have 5: "disabled (set_disabled True live_world) = True" using a by blast
  have 6: "disabled (set_disabled False (set_disabled True live_world)) = False"
    using c by blast
  show ?thesis using 1 2 3 4 5 6 by simp
qed

text \<open>
  Claim C7. While the own property has not been defined, \<open>loaded\<close> is the resolved empty
  value of the class's getter, and it stays so over any tasks none of which is an accepted
  change of the source. An accepted change makes \<open>loaded\<close> the promise its
  \<^verbatim>\<open>controller.visit\<close> call returned. Over any sequence of tasks with at least one accepted
  change, \<open>loaded\<close> is the promise returned by the last \<^verbatim>\<open>visit\<close> call (the controller
  hands out its promises in the order of the calls, so this is the promise with the highest
  number), wherever the tasks that settle the controller's promises stand in the sequence.
\<close>

theorem loaded_is_result_of_last_visit:
  "(loaded_own (frame w) = None \<longrightarrow> loaded w = ResolvedUndefined)
   \<and> (loaded_own (frame w) = None \<and> spec_visits ts w = [] \<longrightarrow>
        loaded (frame_run ts w) = ResolvedUndefined)
   \<and> (\<forall>u. src w = Some u \<and> u \<noteq> [] \<and> isActive w \<longrightarrow>
        loaded (attributeChangedCallback w) = ControllerPromise (fst (visit u w)))
   \<and> (spec_visits ts w \<noteq> [] \<longrightarrow>
        loaded (frame_run ts w) =
          ControllerPromise (length (controller_promises w) + length (spec_visits ts w) - 1))
   \<and> length (controller_promises (frame_run ts w)) =
        length (controller_promises w) + length (spec_visits ts w)"
proof -
  have initial: "loaded_own (frame w) = None \<longrightarrow> loaded w = ResolvedUndefined"
    by (simp add: loaded_def)
  have untouched: "loaded_own (frame w) = None \<and> spec_visits ts w = [] \<longrightarrow>
        loaded (frame_run ts w) = ResolvedUndefined"
    by (simp add: loaded_def run_loaded)
  have accepted: "\<forall>u. src w = Some u \<and> u \<noteq> [] \<and> isActive w \<longrightarrow>
        loaded (attributeChangedCallback w) = ControllerPromise (fst (visit u w))"
    by (simp add: loaded_def callback_loaded truthy_def visit_def)
  have last: "spec_visits ts w \<noteq> [] \<longrightarrow>
        loaded (frame_run ts w) =
          ControllerPromise (length (controller_promises w) + length (spec_visits ts w) - 1)"
    by (simp add: loaded_def run_loaded)
  have allocated: "length (controller_promises (frame_run ts w)) =
        length (controller_promises w) + length (spec_visits ts w)"
    by (rule run_promises)
  from initial untouched accepted last allocated show ?thesis by blast
qed

theorem loaded_is_result_of_last_visit_witness:
  "loaded live_world = ResolvedUndefined
   \<and> loaded (frame_run [MarkPreview 0 True, AssignSrc (Some ''/a'')] live_world) = ResolvedUndefined
   \<and> loaded (attributeChangedCallback (with_src ''/a'' live_world)) = ControllerPromise 0
   \<and> loaded (frame_run
        [AssignSrc (Some ''/a''), AssignSrc (Some ''/b''),
         Settle 1 (Fulfilled None), Settle 0 (Fulfilled (Some ''response''))]
        live_world) = ControllerPromise 1
   \<and> loaded (frame_run
        [AssignSrc (Some ''/a''), AssignSrc (Some ''/b''),
         Settle 0 (Fulfilled (Some ''response'')), Settle 1 (Fulfilled None)]
        live_world) = ControllerPromise 1"
  using loaded_is_result_of_last_visit [of live_world "[MarkPreview 0 True, AssignSrc (Some ''/a'')]"]
    loaded_is_result_of_last_visit [of "with_src ''/a'' live_world"]
    loaded_is_result_of_last_visit [of live_world
      "[AssignSrc (Some ''/a''), AssignSrc (Some ''/b''),
        Settle 1 (Fulfilled None), Settle 0 (Fulfilled (Some ''response''))]"]
    loaded_is_result_of_last_visit [of live_world
      "[AssignSrc (Some ''/a''), AssignSrc (Some ''/b''),
        Settle 0 (Fulfilled (Some ''response'')), Settle 1 (Fulfilled None)]"]
  by (simp add: frame_eval)

text \<open>
  Claim C10. Assigning a non-empty string to \<open>src\<close> sets the attribute to that string;
  assigning \<^verbatim>\<open>null\<close> or the empty string removes the attribute, and reading \<open>src\<close>
  afterwards gives \<^verbatim>\<open>null\<close> (\<open>None\<close>), not the empty string.
\<close>

theorem src_assignment:
  "(v \<noteq> [] \<longrightarrow> attributes (frame (set_src (Some v) w)) ''src'' = Some v
                \<and> src (set_src (Some v) w) = Some v)
   \<and> attributes (frame (set_src None w)) ''src'' = None
   \<and> src (set_src None w) = None
   \<and> attributes (frame (set_src (Some []) w)) ''src'' = None
   \<and> src (set_src (Some []) w) = None"
  by (simp add: set_src_def src_def getAttribute_def truthy_def
      setAttribute_attributes removeAttribute_attributes)

theorem src_assignment_witness:
  "src (set_src (Some ''/a'') live_world) = Some ''/a''
   \<and> src (set_src (Some []) (set_src (Some ''/a'') live_world)) = None
   \<and> src (set_src None (set_src (Some ''/a'') live_world)) = None"
  using src_assignment [of "''/a''" live_world]
    src_assignment [of _ "set_src (Some ''/a'') live_world"]
  by simp

end
